theory Spec2Isabelle
  imports Main "HOL-Library.AList"
begin

section \<open>Python values and their string rendering\<close>

text \<open>
  Tool arguments and input schemas are JSON-shaped Python values. A float is carried as
  the text Python's \<open>repr\<close> prints for it; a dict is an association list in insertion
  order. Strings are lists of code points below 256.
\<close>

datatype json =
    JNull
  | JBool bool
  | JInt int
  | JFloat string
  | JStr string
  | JList "json list"
  | JDict "(string \<times> json) list"

type_synonym args = "(string \<times> json) list"

definition hex_digit :: "nat \<Rightarrow> char" where
  "hex_digit n = ''0123456789abcdef'' ! (n mod 16)"

function digits :: "nat \<Rightarrow> string" where
  "digits n = (if n < 10 then [hex_digit n] else digits (n div 10) @ [hex_digit (n mod 10)])"
  by pat_completeness auto
termination
  by (relation "measure id") auto

definition int_str :: "int \<Rightarrow> string" where
  "int_str i = (if i < 0 then CHR ''-'' # digits (nat (- i)) else digits (nat i))"

text \<open>\<open>str.isprintable\<close> on the code points below 256.\<close>

definition isprintable :: "char \<Rightarrow> bool" where
  "isprintable c =
     ((32 \<le> (of_char c :: nat) \<and> (of_char c :: nat) < 127)
      \<or> (161 \<le> (of_char c :: nat) \<and> (of_char c :: nat) \<noteq> 173))"

text \<open>
  \<open>repr\<close> of a string: double quotes when the string holds a single quote and no
  double quote, single quotes otherwise; the quote and the backslash are escaped, tab,
  newline and carriage return are written \<open>\t\<close>, \<open>\n\<close>, \<open>\r\<close>, any other
  non-printable code point as \<open>\xhh\<close>.
\<close>

definition repr_quote :: "string \<Rightarrow> char" where
  "repr_quote s = (if CHR 0x27 \<in> set s \<and> CHR 0x22 \<notin> set s then CHR 0x22 else CHR 0x27)"

definition repr_char :: "char \<Rightarrow> char \<Rightarrow> string" where
  "repr_char quote c =
     (if c = quote \<or> c = CHR 0x5C then [CHR 0x5C, c]
      else if c = CHR 0x09 then [CHR 0x5C, CHR ''t'']
      else if c = CHR 0x0A then [CHR 0x5C, CHR ''n'']
      else if c = CHR 0x0D then [CHR 0x5C, CHR ''r'']
      else if isprintable c then [c]
      else [CHR 0x5C, CHR ''x'', hex_digit (of_char c div 16), hex_digit (of_char c mod 16)])"

definition repr_str :: "string \<Rightarrow> string" where
  "repr_str s = repr_quote s # concat (map (repr_char (repr_quote s)) s) @ [repr_quote s]"

fun join :: "string \<Rightarrow> string list \<Rightarrow> string" where
  "join sep [] = []"
| "join sep [x] = x"
| "join sep (x # y # ys) = x @ sep @ join sep (y # ys)"

fun py_repr :: "json \<Rightarrow> string" where
  "py_repr JNull = ''None''"
| "py_repr (JBool b) = (if b then ''True'' else ''False'')"
| "py_repr (JInt i) = int_str i"
| "py_repr (JFloat r) = r"
| "py_repr (JStr s) = repr_str s"
| "py_repr (JList vs) = ''['' @ join '', '' (map py_repr vs) @ '']''"
| "py_repr (JDict kvs) =
     ''{'' @ join '', '' (map (\<lambda>(k, v). repr_str k @ '': '' @ py_repr v) kvs) @ ''}''"

text \<open>\<open>str(tool_args)\<close>: the rendering of the arguments mapping.\<close>

definition py_str :: "args \<Rightarrow> string" where
  "py_str tool_args = py_repr (JDict tool_args)"

text \<open>\<open>sub in s\<close> on strings: \<open>sub\<close> occurs in \<open>s\<close> as a contiguous substring.\<close>

fun startswith :: "string \<Rightarrow> string \<Rightarrow> bool" where
  "startswith s [] = True"
| "startswith [] (p # ps) = False"
| "startswith (c # cs) (p # ps) = (c = p \<and> startswith cs ps)"

fun py_in :: "string \<Rightarrow> string \<Rightarrow> bool" where
  "py_in sub [] = (sub = [])"
| "py_in sub (c # cs) = (startswith (c # cs) sub \<or> py_in sub cs)"

text \<open>\<open>s.split(sep)\<close> for a one-character separator: never the empty list.\<close>

fun str_split :: "char \<Rightarrow> string \<Rightarrow> string list" where
  "str_split sep [] = [[]]"
| "str_split sep (c # cs) =
     (if c = sep then [] # str_split sep cs
      else (case str_split sep cs of
              [] \<Rightarrow> [[c]]
            | w # ws \<Rightarrow> (c # w) # ws))"

section \<open>Data model\<close>

text \<open>A tool as a provider lists it (\<open>response.tools\<close> of \<open>session.list_tools()\<close>).\<close>

record McpTool =
  mcp_name :: string
  mcp_description :: string
  inputSchema :: json

text \<open>\<open>Tool(type="function", function=Tool.Function(name, description, parameters))\<close>.\<close>

record Tool =
  fn_name :: string
  fn_description :: string
  fn_parameters :: json

text \<open>
  A channel is identified by the transport it was opened from; the parameters of a
  transport are opaque text.
\<close>

datatype transport = stdio_client string | sse_client string | streamablehttp_client string

record Session =
  session :: transport
  tools :: "Tool list"

record ConfigContainer =
  stdio :: "(string \<times> string) list"
  sse :: "(string \<times> string) list"
  streamable :: "(string \<times> string) list"

text \<open>A history entry \<open>{"role": ..., "content": ...}\<close>.\<close>

record message =
  role :: string
  content :: string

text \<open>\<open>Message.ToolCall\<close>: \<open>tool.function.name\<close> and \<open>tool.function.arguments\<close>.\<close>

record ToolCall =
  function_name :: string
  function_arguments :: args

text \<open>
  One fragment of the model's stream: \<open>part.message.content\<close> (empty for \<open>None\<close>) and
  \<open>part.message.tool_calls\<close> (empty for \<open>None\<close>).
\<close>

record part =
  message_content :: string
  message_tool_calls :: "ToolCall list"

record ChatResponse =
  cr_role :: string
  cr_content :: string
  cr_tool_name :: "string option"
  cr_tool_status :: "string option"
  cr_tool_chain :: "string list option"

text \<open>An element of \<open>result.content\<close>; a non-text element keeps its class name.\<close>

datatype content_block = TextContent string | OtherContent string

text \<open>One remote call: the channel, the tool name and the arguments sent.\<close>

type_synonym remote_call = "transport \<times> string \<times> args"

datatype exn = KeyError string | IndexError | ConnectError transport

text \<open>
  The capabilities the client consumes. \<open>list_tools\<close> is the handshake and listing of a
  transport (\<open>None\<close> when it fails); \<open>chat\<close> is the model: the fragments it streams for a
  model name, a history and a catalog; \<open>call_tool\<close> is a provider's answer to a call,
  given the calls made before it: \<open>Inl\<close> the text of the exception it raises, \<open>Inr\<close> the
  content of its result.
\<close>

record env =
  list_tools :: "transport \<Rightarrow> McpTool list option"
  chat :: "string \<Rightarrow> message list \<Rightarrow> Tool list \<Rightarrow> part list"
  call_tool :: "remote_call list \<Rightarrow> transport \<Rightarrow> string \<Rightarrow> args \<Rightarrow> string + content_block list"

text \<open>
  The client object. \<open>user_token\<close> is \<open>None\<close> while the attribute does not exist.
  \<open>chat_log\<close> and \<open>call_log\<close> record the requests made to the model and to the
  providers, in order; the client never reads them.
\<close>

record client =
  servers :: "(string \<times> Session) list"
  selected_server :: "(string \<times> Session) list"
  messages :: "message list"
  user_token :: "string option"
  chat_log :: "(message list \<times> Tool list) list"
  call_log :: "remote_call list"

datatype outcome = Returned | Raised exn | OutOfFuel

section \<open>Session registry and tool catalog\<close>

definition init :: client where
  "init = \<lparr>servers = [], selected_server = [], messages = [], user_token = None,
            chat_log = [], call_log = []\<rparr>"

text \<open>The catalog entry \<open>_connect_client\<close> builds for one listed tool.\<close>

definition catalog_entry :: "string \<Rightarrow> McpTool \<Rightarrow> Tool" where
  "catalog_entry nm tool =
     \<lparr>fn_name = nm @ ''/'' @ mcp_name tool,
      fn_description = mcp_description tool,
      fn_parameters = inputSchema tool\<rparr>"

definition connect_client :: "env \<Rightarrow> string \<Rightarrow> transport \<Rightarrow> exn + (transport \<times> Tool list)" where
  "connect_client e nm cl =
     (case list_tools e cl of
        None \<Rightarrow> Inl (ConnectError cl)
      | Some response_tools \<Rightarrow> Inr (cl, map (catalog_entry nm) response_tools))"

text \<open>One of the three loops of \<open>_connect_to_multiple_servers\<close>.\<close>

fun connect_each ::
  "env \<Rightarrow> (string \<Rightarrow> transport) \<Rightarrow> (string \<times> string) list \<Rightarrow> (string \<times> Session) list
     \<Rightarrow> exn + (string \<times> Session) list" where
  "connect_each e mk [] srv = Inr srv"
| "connect_each e mk ((nm, params) # rest) srv =
     (case connect_client e nm (mk params) of
        Inl err \<Rightarrow> Inl err
      | Inr (sess, ts) \<Rightarrow>
          connect_each e mk rest (AList.update nm \<lparr>session = sess, tools = ts\<rparr> srv))"

definition connect_to_multiple_servers :: "env \<Rightarrow> ConfigContainer \<Rightarrow> client \<Rightarrow> exn + client" where
  "connect_to_multiple_servers e config c =
     (case connect_each e stdio_client (stdio config) (servers c) of
        Inl err \<Rightarrow> Inl err
      | Inr s1 \<Rightarrow>
     (case connect_each e sse_client (sse config) s1 of
        Inl err \<Rightarrow> Inl err
      | Inr s2 \<Rightarrow>
     (case connect_each e streamablehttp_client (streamable config) s2 of
        Inl err \<Rightarrow> Inl err
      | Inr s3 \<Rightarrow> Inr (c\<lparr>servers := s3, selected_server := s3\<rparr>))))"

definition create :: "env \<Rightarrow> ConfigContainer \<Rightarrow> exn + client" where
  "create e config = connect_to_multiple_servers e config init"

definition get_tools :: "client \<Rightarrow> Tool list" where
  "get_tools c = concat (map (\<lambda>(nm, server). tools server) (selected_server c))"

definition select_server :: "client \<Rightarrow> string list \<Rightarrow> client" where
  "select_server c names =
     c\<lparr>selected_server := filter (\<lambda>(nm, server). nm \<in> set names) (servers c)\<rparr>"

section \<open>Tool dispatcher\<close>

text \<open>The token test and injection of \<open>_tool_call\<close>.\<close>

definition with_token :: "string option \<Rightarrow> args \<Rightarrow> args" where
  "with_token tok tool_args =
     (case tok of
        None \<Rightarrow> tool_args
      | Some t \<Rightarrow>
          if t \<noteq> [] \<and> py_in ''token'' (py_str tool_args)
          then AList.update ''token'' (JStr t) tool_args
          else tool_args)"

text \<open>
  The two message formats of \<open>_tool_call\<close>. \<open>str(tool.function)\<close> is the field listing
  \<open>name=... arguments=...\<close>.
\<close>

definition success_message :: "ToolCall \<Rightarrow> args \<Rightarrow> string \<Rightarrow> string" where
  "success_message tool tool_args text =
     ''tool: '' @ function_name tool @ [CHR 0x0A] @ ''args: '' @ py_str tool_args
       @ [CHR 0x0A] @ ''return: '' @ text"

definition error_message :: "ToolCall \<Rightarrow> args \<Rightarrow> string \<Rightarrow> string" where
  "error_message tool tool_args err =
     ''Error in tool: '' @ ''name='' @ repr_str (function_name tool) @ '' arguments=''
       @ py_str (function_arguments tool) @ [CHR 0x0A] @ ''args: '' @ py_str tool_args
       @ [CHR 0x0A] @ err"

text \<open>The \<open>try\<close> block: everything raised inside it becomes an error message.\<close>

definition result_message :: "ToolCall \<Rightarrow> args \<Rightarrow> string + content_block list \<Rightarrow> string" where
  "result_message tool tool_args result =
     (case result of
        Inl err \<Rightarrow> error_message tool tool_args err
      | Inr [] \<Rightarrow> error_message tool tool_args ''list index out of range''
      | Inr (TextContent text # _) \<Rightarrow> success_message tool tool_args text
      | Inr (OtherContent cls # _) \<Rightarrow>
          error_message tool tool_args
            ([CHR 0x27] @ cls @ [CHR 0x27] @ '' object has no attribute '' @ [CHR 0x27]
               @ ''text'' @ [CHR 0x27]))"

text \<open>The body of the loop of \<open>_tool_call\<close> for one request.\<close>

definition tool_call_step :: "env \<Rightarrow> client \<Rightarrow> ToolCall \<Rightarrow> (exn + string) \<times> client" where
  "tool_call_step e c tool =
     (case map_of (selected_server c) (hd (str_split CHR ''/'' (function_name tool))) of
        None \<Rightarrow> (Inl (KeyError (hd (str_split CHR ''/'' (function_name tool)))), c)
      | Some server \<Rightarrow>
          (case tl (str_split CHR ''/'' (function_name tool)) of
             [] \<Rightarrow> (Inl IndexError, c)
           | tool_name # _ \<Rightarrow>
               (Inr (result_message tool (with_token (user_token c) (function_arguments tool))
                       (call_tool e (call_log c) (session server) tool_name
                          (with_token (user_token c) (function_arguments tool)))),
                c\<lparr>call_log := call_log c @
                     [(session server, tool_name,
                       with_token (user_token c) (function_arguments tool))]\<rparr>)))"

fun tool_call ::
  "env \<Rightarrow> client \<Rightarrow> ToolCall list \<Rightarrow> string list \<Rightarrow> (exn + string list) \<times> client" where
  "tool_call e c [] chain = (Inr [], c)"
| "tool_call e c (tool # rest) chain =
     (case tool_call_step e c tool of
        (Inl err, c') \<Rightarrow> (Inl err, c')
      | (Inr msg, c') \<Rightarrow>
          (case tool_call e c' rest chain of
             (Inl err, c'') \<Rightarrow> (Inl err, c'')
           | (Inr msgs, c'') \<Rightarrow> (Inr (msg # msgs), c'')))"

section \<open>Drive loop\<close>

definition chain_opt :: "string list \<Rightarrow> string list option" where
  "chain_opt chain = (if chain \<noteq> [] then Some chain else None)"

definition assistant_event :: "string list \<Rightarrow> string \<Rightarrow> ChatResponse" where
  "assistant_event chain text =
     \<lparr>cr_role = ''assistant'', cr_content = text, cr_tool_name = None,
      cr_tool_status = None, cr_tool_chain = chain_opt chain\<rparr>"

definition status_event :: "string list \<Rightarrow> ToolCall \<Rightarrow> ChatResponse" where
  "status_event chain tool =
     \<lparr>cr_role = ''status'', cr_content = ''Calling tool: '' @ function_name tool,
      cr_tool_name = Some (function_name tool), cr_tool_status = Some ''calling'',
      cr_tool_chain = Some (chain @ [function_name tool])\<rparr>"

definition result_event :: "string list \<Rightarrow> string \<Rightarrow> ChatResponse" where
  "result_event chain tool_message =
     \<lparr>cr_role = ''tool'', cr_content = tool_message, cr_tool_name = None,
      cr_tool_status = None, cr_tool_chain = chain_opt chain\<rparr>"

definition tool_entry :: "string \<Rightarrow> message" where
  "tool_entry tool_message = \<lparr>role = ''tool'', content = tool_message\<rparr>"

text \<open>
  The \<open>async for part in stream\<close> loop: the events yielded, the client afterwards, and
  either the exception that left the loop or the final \<open>tool_message_count\<close>.
\<close>

fun consume ::
  "env \<Rightarrow> string list \<Rightarrow> client \<Rightarrow> nat \<Rightarrow> part list
     \<Rightarrow> ChatResponse list \<times> client \<times> (exn + nat)" where
  "consume e chain c cnt [] = ([], c, Inr cnt)"
| "consume e chain c cnt (p # ps) =
     (if message_content p \<noteq> [] then
        (case consume e chain c cnt ps of
           (evs, c', r) \<Rightarrow> (assistant_event chain (message_content p) # evs, c', r))
      else if message_tool_calls p \<noteq> [] then
        (case tool_call e c (message_tool_calls p) chain of
           (Inl err, c') \<Rightarrow> (map (status_event chain) (message_tool_calls p), c', Inl err)
         | (Inr tool_messages, c') \<Rightarrow>
             (case consume e chain
                     (c'\<lparr>messages := messages c' @ map tool_entry tool_messages\<rparr>)
                     (cnt + 1) ps of
                (evs, c'', r) \<Rightarrow>
                  (map (status_event chain) (message_tool_calls p)
                     @ map (result_event chain) tool_messages @ evs, c'', r)))
      else consume e chain c cnt ps)"

text \<open>
  \<open>_recursive_prompt\<close>. The source recurses for as long as the model keeps asking for
  tools; the first argument bounds the number of model requests, and \<open>OutOfFuel\<close> is
  the outcome when the bound is reached.
\<close>

fun recursive_prompt ::
  "env \<Rightarrow> nat \<Rightarrow> string \<Rightarrow> string list \<Rightarrow> client \<Rightarrow> ChatResponse list \<times> client \<times> outcome" where
  "recursive_prompt e 0 model chain c = ([], c, OutOfFuel)"
| "recursive_prompt e (Suc fuel) model chain c =
     (case consume e chain (c\<lparr>chat_log := chat_log c @ [(messages c, get_tools c)]\<rparr>) 0
             (chat e model (messages c) (get_tools c)) of
        (evs, c', Inl err) \<Rightarrow> (evs, c', Raised err)
      | (evs, c', Inr tool_message_count) \<Rightarrow>
          if tool_message_count > 0 then
            (case recursive_prompt e fuel model chain c' of
               (evs', c'', r) \<Rightarrow> (evs @ evs', c'', r))
          else (evs, c', Returned))"

definition process_message ::
  "env \<Rightarrow> nat \<Rightarrow> string \<Rightarrow> string \<Rightarrow> string \<Rightarrow> client \<Rightarrow> ChatResponse list \<times> client \<times> outcome" where
  "process_message e fuel msg model token c =
     recursive_prompt e fuel model []
       (c\<lparr>messages := messages c @ [\<lparr>role = ''user'', content = msg\<rparr>],
          user_token := Some token\<rparr>)"

section \<open>A well-formed registry\<close>

text \<open>
  The registry as the data model describes it: provider names are unique and hold no
  \<open>/\<close>, and every session's tools are the catalog entries of a listing with pairwise
  distinct tool names.
\<close>

definition registry_ok :: "(string \<times> Session) list \<Rightarrow> bool" where
  "registry_ok srv =
     (distinct (map fst srv) \<and>
      (\<forall>(nm, server) \<in> set srv. CHR ''/'' \<notin> set nm \<and>
         (\<exists>native. distinct (map mcp_name native)
            \<and> tools server = map (catalog_entry nm) native)))"

section \<open>Scenario: the providers wallet and places\<close>

text \<open>
  Two providers, \<open>wallet\<close> over stdio with the tool \<open>topup\<close> and \<open>places\<close> over SSE
  with the tool \<open>nearby\<close>; both tools declare a \<open>token\<close> field in their input schema,
  as every tool of the repository's server does.
\<close>

definition token_schema :: json where
  "token_schema =
     JDict [(''type'', JStr ''object''),
            (''properties'', JDict [(''token'', JDict [(''type'', JStr ''string'')])]),
            (''required'', JList [JStr ''token''])]"

definition scenario_tools :: "transport \<Rightarrow> McpTool list option" where
  "scenario_tools t =
     (if t = stdio_client ''wallet-cmd''
      then Some [\<lparr>mcp_name = ''topup'', mcp_description = ''Top up'', inputSchema = token_schema\<rparr>]
      else if t = sse_client ''places-url''
      then Some [\<lparr>mcp_name = ''nearby'', mcp_description = ''Nearby'', inputSchema = token_schema\<rparr>]
      else None)"

definition scenario_config :: ConfigContainer where
  "scenario_config =
     \<lparr>stdio = [(''wallet'', ''wallet-cmd'')], sse = [(''places'', ''places-url'')],
      streamable = []\<rparr>"

text \<open>
  The model is a script over the history; every provider answers every call with the
  text \<open>ok\<close>.
\<close>

definition scenario_env :: "(message list \<Rightarrow> part list) \<Rightarrow> env" where
  "scenario_env script =
     \<lparr>list_tools = scenario_tools,
      chat = (\<lambda>model history catalog. script history),
      call_tool = (\<lambda>log chan nm a. Inr [TextContent ''ok''])\<rparr>"

definition wallet_session :: Session where
  "wallet_session =
     \<lparr>session = stdio_client ''wallet-cmd'',
      tools = [\<lparr>fn_name = ''wallet/topup'', fn_description = ''Top up'',
                fn_parameters = token_schema\<rparr>]\<rparr>"

definition places_session :: Session where
  "places_session =
     \<lparr>session = sse_client ''places-url'',
      tools = [\<lparr>fn_name = ''places/nearby'', fn_description = ''Nearby'',
                fn_parameters = token_schema\<rparr>]\<rparr>"

definition scenario_client :: client where
  "scenario_client =
     \<lparr>servers = [(''wallet'', wallet_session), (''places'', places_session)],
      selected_server = [(''wallet'', wallet_session), (''places'', places_session)],
      messages = [], user_token = None, chat_log = [], call_log = []\<rparr>"

text \<open>
  A scripted model: on a history of one entry (the user's message) it streams one
  fragment per batch of tool calls, and on any longer history the final answer.
\<close>

definition scripted :: "ToolCall list list \<Rightarrow> message list \<Rightarrow> part list" where
  "scripted batches history =
     (if length history = 1
      then map (\<lambda>calls. \<lparr>message_content = [], message_tool_calls = calls\<rparr>) batches
      else [\<lparr>message_content = ''Done'', message_tool_calls = []\<rparr>])"

definition nearby_call :: ToolCall where
  "nearby_call =
     \<lparr>function_name = ''places/nearby'',
      function_arguments = [(''lat'', JFloat ''-6.19''), (''lon'', JFloat ''106.82''),
                            (''token'', JStr ''bogus'')]\<rparr>"

definition topup_call :: ToolCall where
  "topup_call =
     \<lparr>function_name = ''wallet/topup'', function_arguments = [(''amount'', JInt 50000)]\<rparr>"

text \<open>A call that passes no \<open>token\<close> argument but searches for the word.\<close>

definition keyword_call :: ToolCall where
  "keyword_call =
     \<lparr>function_name = ''places/nearby'', function_arguments = [(''keyword'', JStr ''token'')]\<rparr>"

text \<open>A call to a provider that is not registered.\<close>

definition bank_call :: ToolCall where
  "bank_call = \<lparr>function_name = ''bank/pay'', function_arguments = []\<rparr>"

text \<open>A provider that lists the same tool name twice.\<close>

definition twice_env :: env where
  "twice_env =
     \<lparr>list_tools = (\<lambda>t. Some [\<lparr>mcp_name = ''nearby'', mcp_description = ''Nearby'',
                                  inputSchema = token_schema\<rparr>,
                                \<lparr>mcp_name = ''nearby'', mcp_description = ''Nearby again'',
                                  inputSchema = token_schema\<rparr>]),
      chat = (\<lambda>model history catalog. []),
      call_tool = (\<lambda>log chan nm a. Inr [TextContent ''ok''])\<rparr>"

section \<open>Properties of the registry and the catalog\<close>

lemma scenario_create: "create (scenario_env script) scenario_config = Inr scenario_client"
  by (simp add: create_def connect_to_multiple_servers_def init_def scenario_env_def
      scenario_config_def scenario_tools_def connect_client_def catalog_entry_def
      scenario_client_def wallet_session_def places_session_def)

lemma create_selects_all: "create e config = Inr c \<Longrightarrow> selected_server c = servers c"
  by (auto simp: create_def connect_to_multiple_servers_def split: sum.splits)

text \<open>
  C5 (as amended). \<open>select_server\<close> never fails: it keeps the registered providers whose
  names are in the given list, in registry order, ignores every other name and leaves
  the registry itself unchanged. On creation the active set is the whole registry.
\<close>

theorem select_server_filters_registered:
  "selected_server (select_server c names)
     = filter (\<lambda>(nm, server). nm \<in> set names) (servers c)
   \<and> servers (select_server c names) = servers c
   \<and> (create e config = Inr c \<longrightarrow> selected_server c = servers c)"
  using create_selects_all by (simp add: select_server_def)

theorem select_server_filters_registered_witness:
  "create (scenario_env (\<lambda>h. [])) scenario_config = Inr scenario_client
   \<and> selected_server scenario_client = servers scenario_client
   \<and> selected_server (select_server scenario_client [''places''])
       = [(''places'', places_session)]"
  using select_server_filters_registered
          [of scenario_client "[''places'']" "scenario_env (\<lambda>h. [])" scenario_config]
  by (simp add: scenario_create scenario_client_def)

text \<open>
  C5 as stated fails: selecting \<open>places\<close> together with the unregistered name \<open>bank\<close>
  raises nothing; the call returns with \<open>places\<close> alone active.
\<close>

theorem select_server_unknown_name_counterexample:
  "(case create (scenario_env (\<lambda>h. [])) scenario_config of
      Inl err \<Rightarrow> []
    | Inr c \<Rightarrow> map fst (selected_server (select_server c [''places'', ''bank''])))
   = [''places'']"
  by (simp add: scenario_create scenario_client_def select_server_def)

lemma update_subset_insert: "set (AList.update k v al) \<subseteq> insert (k, v) (set al)"
  by (induction al) auto

lemma distinct_prefixed: "distinct xs \<Longrightarrow> distinct (map (\<lambda>t. p @ t) xs)"
  by (simp add: distinct_map inj_on_def)

lemma registry_ok_update:
  assumes "registry_ok srv" and "CHR ''/'' \<notin> set nm"
    and "distinct (map mcp_name native)"
  shows "registry_ok (AList.update nm \<lparr>session = cl, tools = map (catalog_entry nm) native\<rparr> srv)"
proof -
  have sub: "set (AList.update nm \<lparr>session = cl, tools = map (catalog_entry nm) native\<rparr> srv)
      \<subseteq> insert (nm, \<lparr>session = cl, tools = map (catalog_entry nm) native\<rparr>) (set srv)"
    by (rule update_subset_insert)
  show ?thesis
    unfolding registry_ok_def
  proof (intro conjI ballI)
    show "distinct (map fst (AList.update nm \<lparr>session = cl, tools = map (catalog_entry nm) native\<rparr> srv))"
      using assms(1) by (simp add: registry_ok_def distinct_update)
  next
    fix x assume "x \<in> set (AList.update nm \<lparr>session = cl, tools = map (catalog_entry nm) native\<rparr> srv)"
    with sub have "x = (nm, \<lparr>session = cl, tools = map (catalog_entry nm) native\<rparr>) \<or> x \<in> set srv"
      by auto
    then show "case x of (nm, server) \<Rightarrow> CHR ''/'' \<notin> set nm \<and>
         (\<exists>native. distinct (map mcp_name native) \<and> tools server = map (catalog_entry nm) native)"
    proof
      assume "x = (nm, \<lparr>session = cl, tools = map (catalog_entry nm) native\<rparr>)"
      then show ?thesis using assms(2,3) by auto
    next
      assume "x \<in> set srv"
      then show ?thesis using assms(1) by (auto simp: registry_ok_def)
    qed
  qed
qed

lemma connect_each_ok:
  assumes "connect_each e mk items srv = Inr srv'"
    and "registry_ok srv"
    and "\<forall>nm \<in> fst ` set items. CHR ''/'' \<notin> set nm"
    and "\<forall>t native. list_tools e t = Some native \<longrightarrow> distinct (map mcp_name native)"
  shows "registry_ok srv'"
  using assms
proof (induction e mk items srv rule: connect_each.induct)
  case (1 e mk srv)
  then show ?case by simp
next
  case (2 e mk nm params rest srv)
  from "2.prems"(1) obtain native where
    lt: "list_tools e (mk params) = Some native"
    and rest: "connect_each e mk rest (AList.update nm \<lparr>session = mk params, tools = map (catalog_entry nm) native\<rparr> srv) = Inr srv'"
    by (auto simp: connect_client_def split: option.splits)
  have cc: "connect_client e nm (mk params) = Inr (mk params, map (catalog_entry nm) native)"
    using lt by (simp add: connect_client_def)
  have d: "distinct (map mcp_name native)" using "2.prems"(4) lt by blast
  have ok: "registry_ok (AList.update nm \<lparr>session = mk params, tools = map (catalog_entry nm) native\<rparr> srv)"
    using registry_ok_update[OF "2.prems"(2) _ d] "2.prems"(3) by simp
  show ?case
    using "2.IH"[OF cc refl rest ok] "2.prems"(3,4) by simp
qed

lemma qualified_name_provider:
  assumes "CHR ''/'' \<notin> set nm"
  shows "takeWhile (\<lambda>ch. ch \<noteq> CHR ''/'') (nm @ ''/'' @ t) = nm"
  using assms by (induction nm) auto

lemma registry_ok_distinct:
  assumes "registry_ok srv"
  shows "distinct (map fn_name (concat (map (\<lambda>(nm, server). tools server) srv)))"
  using assms
proof (induction srv)
  case Nil
  then show ?case by simp
next
  case (Cons entry srv)
  obtain nm server where entry: "entry = (nm, server)" by (cases entry)
  from Cons.prems obtain native where
    nm: "CHR ''/'' \<notin> set nm" and dn: "distinct (map mcp_name native)"
    and ts: "tools server = map (catalog_entry nm) native"
    and fresh: "nm \<notin> fst ` set srv" and rest: "registry_ok srv"
    by (auto simp: registry_ok_def entry)
  have d1: "distinct (map fn_name (tools server))"
  proof -
    have "map fn_name (tools server) = map (\<lambda>t. (nm @ ''/'') @ t) (map mcp_name native)"
      by (simp add: ts catalog_entry_def)
    then show ?thesis using distinct_prefixed[OF dn, of "nm @ ''/''"] by (simp only:)
  qed
  have disj: "set (map fn_name (tools server)) \<inter>
      set (map fn_name (concat (map (\<lambda>(nm, server). tools server) srv))) = {}"
  proof (rule ccontr)
    assume "\<not> ?thesis"
    then obtain q where q1: "q \<in> set (map fn_name (tools server))"
      and q2: "q \<in> set (map fn_name (concat (map (\<lambda>(nm, server). tools server) srv)))"
      by blast
    from q1 obtain t where qa: "q = nm @ ''/'' @ t"
      by (auto simp: ts catalog_entry_def)
    from q2 obtain nm' server' tl' where mem: "(nm', server') \<in> set srv"
      and tl': "tl' \<in> set (tools server')" and qb: "q = fn_name tl'"
      by auto
    from rest mem obtain native' where nm': "CHR ''/'' \<notin> set nm'"
      and ts': "tools server' = map (catalog_entry nm') native'"
      by (auto simp: registry_ok_def)
    from tl' ts' qb obtain t' where qc: "q = nm' @ ''/'' @ t'"
      by (auto simp: catalog_entry_def)
    have "nm = nm'"
      using qualified_name_provider[OF nm, of t] qualified_name_provider[OF nm', of t'] qa qc
      by simp
    with mem fresh show False by force
  qed
  show ?case
    using d1 disj Cons.IH[OF rest] by (simp add: entry)
qed

lemma registry_ok_filter: "registry_ok srv \<Longrightarrow> registry_ok (filter P srv)"
  by (auto simp: registry_ok_def distinct_map_filter)

lemma registry_ok_Nil: "registry_ok []"
  by (simp add: registry_ok_def)

lemma create_registry_ok:
  assumes "create e config = Inr c"
    and "\<forall>nm \<in> fst ` set (stdio config @ sse config @ streamable config). CHR ''/'' \<notin> set nm"
    and "\<forall>t native. list_tools e t = Some native \<longrightarrow> distinct (map mcp_name native)"
  shows "registry_ok (servers c)"
proof -
  from assms(1) obtain s1 s2 s3 where
    a: "connect_each e stdio_client (stdio config) [] = Inr s1"
    and b: "connect_each e sse_client (sse config) s1 = Inr s2"
    and c: "connect_each e streamablehttp_client (streamable config) s2 = Inr s3"
    and d: "servers c = s3"
    by (auto simp: create_def connect_to_multiple_servers_def init_def split: sum.splits)
  have "registry_ok s1" using connect_each_ok[OF a registry_ok_Nil _ assms(3)] assms(2) by auto
  then have "registry_ok s2" using connect_each_ok[OF b _ _ assms(3)] assms(2) by auto
  then have "registry_ok s3" using connect_each_ok[OF c _ _ assms(3)] assms(2) by auto
  then show ?thesis by (simp add: d)
qed

text \<open>
  C7 (as amended). For a registry built by \<open>create\<close>, the catalog is the concatenation of
  the active sessions' tool descriptors in registry order, before and after any
  \<open>select_server\<close>, so the tools of a provider that is not selected are gone at the
  next call. It holds no duplicate qualified name provided no provider name contains
  \<open>/\<close> and every provider lists pairwise distinct tool names.
\<close>

theorem catalog_concatenates_active_sessions:
  assumes "create e config = Inr c"
    and "\<forall>nm \<in> fst ` set (stdio config @ sse config @ streamable config). CHR ''/'' \<notin> set nm"
    and "\<forall>t native. list_tools e t = Some native \<longrightarrow> distinct (map mcp_name native)"
  shows "get_tools c = concat (map (\<lambda>(nm, server). tools server) (servers c))
    \<and> get_tools (select_server c names)
        = concat (map (\<lambda>(nm, server). tools server)
            (filter (\<lambda>(nm, server). nm \<in> set names) (servers c)))
    \<and> distinct (map fn_name (get_tools c))
    \<and> distinct (map fn_name (get_tools (select_server c names)))"
proof -
  have ok: "registry_ok (servers c)"
    by (rule create_registry_ok[OF assms])
  have all: "selected_server c = servers c"
    by (rule create_selects_all[OF assms(1)])
  have "distinct (map fn_name (get_tools c))"
    using registry_ok_distinct[OF ok] by (simp add: get_tools_def all)
  moreover have "distinct (map fn_name (get_tools (select_server c names)))"
    using registry_ok_distinct[OF registry_ok_filter[OF ok]]
    by (simp add: get_tools_def select_server_def)
  ultimately show ?thesis
    by (simp add: get_tools_def select_server_def all)
qed

theorem catalog_concatenates_active_sessions_witness:
  "get_tools scenario_client = tools wallet_session @ tools places_session
   \<and> get_tools (select_server scenario_client [''places'']) = tools places_session
   \<and> distinct (map fn_name (get_tools scenario_client))
   \<and> distinct (map fn_name (get_tools (select_server scenario_client [''places''])))"
proof -
  have h1: "create (scenario_env (\<lambda>h. [])) scenario_config = Inr scenario_client"
    by (rule scenario_create)
  have h2: "\<forall>nm \<in> fst ` set (stdio scenario_config @ sse scenario_config
      @ streamable scenario_config). CHR ''/'' \<notin> set nm"
    by (simp add: scenario_config_def)
  have h3: "\<forall>t native. list_tools (scenario_env (\<lambda>h. [])) t = Some native
      \<longrightarrow> distinct (map mcp_name native)"
    by (auto simp: scenario_env_def scenario_tools_def split: if_splits)
  show ?thesis
    using catalog_concatenates_active_sessions[OF h1 h2 h3, of "[''places'']"]
    by (simp add: scenario_client_def get_tools_def select_server_def)
qed

text \<open>
  C7 as stated fails: when the provider \<open>places\<close> lists the tool \<open>nearby\<close> twice, the
  catalog holds the qualified name \<open>places/nearby\<close> twice.
\<close>

theorem catalog_duplicate_names_counterexample:
  "(case create twice_env \<lparr>stdio = [], sse = [(''places'', ''places-url'')], streamable = []\<rparr> of
      Inl err \<Rightarrow> []
    | Inr c \<Rightarrow> map fn_name (get_tools c))
   = [''places/nearby'', ''places/nearby'']"
  by (simp add: create_def connect_to_multiple_servers_def init_def twice_env_def
      connect_client_def catalog_entry_def get_tools_def)

section \<open>Properties of the dispatcher and the drive loop\<close>

lemma tool_call_step_frame:
  "tool_call_step e c tool = (r, c') \<Longrightarrow>
     servers c' = servers c \<and> selected_server c' = selected_server c
     \<and> messages c' = messages c \<and> user_token c' = user_token c \<and> chat_log c' = chat_log c"
  by (auto simp: tool_call_step_def split: option.splits list.splits)

lemma tool_call_frame:
  "tool_call e c calls chain = (r, c') \<Longrightarrow>
     servers c' = servers c \<and> selected_server c' = selected_server c
     \<and> messages c' = messages c \<and> user_token c' = user_token c \<and> chat_log c' = chat_log c"
proof (induction calls arbitrary: c r c')
  case Nil
  then show ?case by simp
next
  case (Cons tool rest)
  obtain r1 c1 where s1: "tool_call_step e c tool = (r1, c1)" by (cases "tool_call_step e c tool")
  note f1 = tool_call_step_frame[OF s1]
  show ?case
  proof (cases r1)
    case (Inl err)
    with Cons.prems s1 have "c' = c1" by simp
    with f1 show ?thesis by simp
  next
    case (Inr msg)
    obtain r2 c2 where s2: "tool_call e c1 rest chain = (r2, c2)" by (cases "tool_call e c1 rest chain")
    from Cons.prems s1 Inr s2 have "c' = c2" by (auto split: sum.splits)
    with Cons.IH[OF s2] f1 show ?thesis by simp
  qed
qed

lemma tool_call_length:
  "tool_call e c calls chain = (Inr msgs, c') \<Longrightarrow> length msgs = length calls"
proof (induction calls arbitrary: c msgs c')
  case Nil
  then show ?case by simp
next
  case (Cons tool rest)
  then show ?case
    by (auto split: prod.splits sum.splits)
qed

lemma consume_frame:
  "consume e chain c cnt ps = (evs, c', r) \<Longrightarrow>
     servers c' = servers c \<and> selected_server c' = selected_server c
     \<and> user_token c' = user_token c \<and> chat_log c' = chat_log c"
proof (induction e chain c cnt ps arbitrary: evs c' r rule: consume.induct)
  case (1 e chain c cnt)
  then show ?case by simp
next
  case (2 e chain c cnt p ps)
  show ?case
  proof (cases "message_content p \<noteq> []")
    case True
    obtain evs0 c0 r0 where s: "consume e chain c cnt ps = (evs0, c0, r0)"
      by (cases "consume e chain c cnt ps")
    from "2.prems" True s have "c' = c0" by simp
    with "2.IH"(1)[OF True s] show ?thesis by simp
  next
    case nc: False
    show ?thesis
    proof (cases "message_tool_calls p \<noteq> []")
      case False
      with nc "2.prems" have "consume e chain c cnt ps = (evs, c', r)" by simp
      from "2.IH"(3)[OF nc False this] show ?thesis .
    next
      case True
      obtain r1 c1 where t: "tool_call e c (message_tool_calls p) chain = (r1, c1)"
        by (cases "tool_call e c (message_tool_calls p) chain")
      note f1 = tool_call_frame[OF t]
      show ?thesis
      proof (cases r1)
        case (Inl err)
        with "2.prems" nc True t have "c' = c1" by simp
        with f1 show ?thesis by simp
      next
        case (Inr msgs)
        obtain evs0 c0 r0 where s: "consume e chain (c1\<lparr>messages := messages c1 @ map tool_entry msgs\<rparr>) (cnt + 1) ps = (evs0, c0, r0)"
          by (cases "consume e chain (c1\<lparr>messages := messages c1 @ map tool_entry msgs\<rparr>) (cnt + 1) ps")
        from "2.prems" nc True t Inr s have "c' = c0" by simp
        with "2.IH"(2)[OF nc True t[symmetric, unfolded Inr] refl s] f1 show ?thesis by simp
      qed
    qed
  qed
qed

lemma consume_no_tool_calls:
  "\<forall>p \<in> set ps. message_tool_calls p = [] \<Longrightarrow>
     consume e chain c cnt ps
       = (map (assistant_event chain) (filter (\<lambda>t. t \<noteq> []) (map message_content ps)), c, Inr cnt)"
  by (induction ps) auto

lemma consume_count:
  "consume e chain c cnt ps = (evs, c', Inr n) \<Longrightarrow>
     n = cnt + length (filter (\<lambda>p. message_content p = [] \<and> message_tool_calls p \<noteq> []) ps)"
proof (induction e chain c cnt ps arbitrary: evs c' n rule: consume.induct)
  case (1 e chain c cnt)
  then show ?case by simp
next
  case (2 e chain c cnt p ps)
  show ?case
  proof (cases "message_content p \<noteq> []")
    case True
    obtain evs0 c0 r0 where s: "consume e chain c cnt ps = (evs0, c0, r0)"
      by (cases "consume e chain c cnt ps")
    from "2.prems" True s have "r0 = Inr n" by simp
    with "2.IH"(1)[OF True] s True show ?thesis by simp
  next
    case nc: False
    show ?thesis
    proof (cases "message_tool_calls p \<noteq> []")
      case False
      with nc "2.prems" have "consume e chain c cnt ps = (evs, c', Inr n)" by simp
      from "2.IH"(3)[OF nc False this] nc False show ?thesis by simp
    next
      case True
      obtain r1 c1 where t: "tool_call e c (message_tool_calls p) chain = (r1, c1)"
        by (cases "tool_call e c (message_tool_calls p) chain")
      show ?thesis
      proof (cases r1)
        case (Inl err)
        with "2.prems" nc True t show ?thesis by simp
      next
        case (Inr msgs)
        obtain evs0 c0 r0 where s: "consume e chain (c1\<lparr>messages := messages c1 @ map tool_entry msgs\<rparr>) (cnt + 1) ps = (evs0, c0, r0)"
          by (cases "consume e chain (c1\<lparr>messages := messages c1 @ map tool_entry msgs\<rparr>) (cnt + 1) ps")
        from "2.prems" nc True t Inr s have "r0 = Inr n" by simp
        with "2.IH"(2)[OF nc True t[symmetric, unfolded Inr] refl] s nc True show ?thesis by simp
      qed
    qed
  qed
qed

lemma recursive_prompt_first_request:
  "recursive_prompt e (Suc fuel) model chain c = (evs, c', r) \<Longrightarrow>
     \<exists>more. chat_log c' = chat_log c @ (messages c, get_tools c) # more"
proof (induction fuel arbitrary: c evs c' r)
  case 0
  obtain evs0 c0 r0 where s: "consume e chain (c\<lparr>chat_log := chat_log c @ [(messages c, get_tools c)]\<rparr>) 0
             (chat e model (messages c) (get_tools c)) = (evs0, c0, r0)"
    by (metis prod_cases3)
  from consume_frame[OF s] have l: "chat_log c0 = chat_log c @ [(messages c, get_tools c)]" by simp
  from "0.prems" s have "c' = c0" by (auto split: sum.splits if_splits)
  with l show ?case by simp
next
  case (Suc fuel)
  obtain evs0 c0 r0 where s: "consume e chain (c\<lparr>chat_log := chat_log c @ [(messages c, get_tools c)]\<rparr>) 0
             (chat e model (messages c) (get_tools c)) = (evs0, c0, r0)"
    by (metis prod_cases3)
  from consume_frame[OF s] have l: "chat_log c0 = chat_log c @ [(messages c, get_tools c)]" by simp
  show ?case
  proof (cases "\<exists>n. r0 = Inr n \<and> n > 0")
    case False
    with Suc.prems s have "c' = c0" by (auto split: sum.splits if_splits)
    with l show ?thesis by simp
  next
    case True
    then obtain n where n: "r0 = Inr n" "n > 0" by blast
    obtain evs1 c1 r1 where rec: "recursive_prompt e (Suc fuel) model chain c0 = (evs1, c1, r1)"
      by (metis prod_cases3)
    from Suc.prems s n rec have "c' = c1" by (simp del: recursive_prompt.simps add: recursive_prompt.simps(2)[of e "Suc fuel"])
    with Suc.IH[OF rec] l show ?thesis by auto
  qed
qed

lemma nearby_has_token: "py_in ''token'' (py_str (function_arguments nearby_call))"
  by (simp add: nearby_call_def py_str_def repr_str_def repr_quote_def repr_char_def isprintable_def)

lemma topup_has_no_token: "\<not> py_in ''token'' (py_str (function_arguments topup_call))"
  by (simp add: topup_call_def py_str_def repr_str_def repr_quote_def repr_char_def isprintable_def
      int_str_def hex_digit_def)

text \<open>
  C2 (as amended). When no fragment of the model's answer carries a tool call, one model
  request is made, the stream is exactly one assistant event per fragment with text, in
  order, and the history afterwards is the old history followed by the one new user
  entry: the assistant's fragments are not recorded in it.
\<close>

theorem zero_tool_calls_stream_and_history:
  assumes "\<forall>p \<in> set (chat e model (messages c @ [\<lparr>role = ''user'', content = msg\<rparr>]) (get_tools c)).
             message_tool_calls p = []"
  shows "process_message e (Suc fuel) msg model token c
    = (map (assistant_event [])
         (filter (\<lambda>t. t \<noteq> [])
            (map message_content
               (chat e model (messages c @ [\<lparr>role = ''user'', content = msg\<rparr>]) (get_tools c)))),
       c\<lparr>messages := messages c @ [\<lparr>role = ''user'', content = msg\<rparr>],
         user_token := Some token,
         chat_log := chat_log c
           @ [(messages c @ [\<lparr>role = ''user'', content = msg\<rparr>], get_tools c)]\<rparr>,
       Returned)"
proof -
  let ?c1 = "c\<lparr>messages := messages c @ [\<lparr>role = ''user'', content = msg\<rparr>], user_token := Some token\<rparr>"
  have g: "get_tools ?c1 = get_tools c" by (simp add: get_tools_def)
  have m: "messages ?c1 = messages c @ [\<lparr>role = ''user'', content = msg\<rparr>]" by simp
  show ?thesis
    unfolding process_message_def recursive_prompt.simps g m
    using consume_no_tool_calls[OF assms] by simp
qed

theorem zero_tool_calls_stream_and_history_witness:
  "fst (process_message
          (scenario_env (\<lambda>h. [\<lparr>message_content = ''Halo'', message_tool_calls = []\<rparr>,
                               \<lparr>message_content = [], message_tool_calls = []\<rparr>,
                               \<lparr>message_content = ''!'', message_tool_calls = []\<rparr>]))
          (Suc 0) ''hai'' ''qwen3:8b'' ''T1'' scenario_client)
     = [assistant_event [] ''Halo'', assistant_event [] ''!'']
   \<and> messages (fst (snd (process_message
          (scenario_env (\<lambda>h. [\<lparr>message_content = ''Halo'', message_tool_calls = []\<rparr>,
                               \<lparr>message_content = [], message_tool_calls = []\<rparr>,
                               \<lparr>message_content = ''!'', message_tool_calls = []\<rparr>]))
          (Suc 0) ''hai'' ''qwen3:8b'' ''T1'' scenario_client)))
     = [\<lparr>role = ''user'', content = ''hai''\<rparr>]"
proof -
  have h: "\<forall>p \<in> set (chat (scenario_env (\<lambda>h. [\<lparr>message_content = ''Halo'', message_tool_calls = []\<rparr>,
                               \<lparr>message_content = [], message_tool_calls = []\<rparr>,
                               \<lparr>message_content = ''!'', message_tool_calls = []\<rparr>])) ''qwen3:8b''
        (messages scenario_client @ [\<lparr>role = ''user'', content = ''hai''\<rparr>]) (get_tools scenario_client)).
      message_tool_calls p = []"
    by (simp add: scenario_env_def)
  show ?thesis
    unfolding zero_tool_calls_stream_and_history[OF h, of 0 "''T1''"]
    by (simp add: scenario_env_def scenario_client_def)
qed

text \<open>
  C2 as stated fails: the model answers \<open>Halo\<close> with no tool call, the answer is
  streamed, and the history afterwards holds the user entry alone.
\<close>

theorem assistant_fragments_not_in_history_counterexample:
  "(case process_message
          (scenario_env (\<lambda>h. [\<lparr>message_content = ''Halo'', message_tool_calls = []\<rparr>]))
          (Suc 0) ''hai'' ''qwen3:8b'' ''T1'' scenario_client of
      (evs, c', r) \<Rightarrow> (map cr_content evs, map role (messages c'), r))
   = ([''Halo''], [''user''], Returned)"
  by (simp add: process_message_def scenario_env_def scenario_client_def get_tools_def
      assistant_event_def)

text \<open>
  The end of a turn whose stream is consumed without an exception: the final
  \<open>tool_message_count\<close> is the number of fragments that carried tool calls and no text.
  When it is positive the loop recurses with the same tool chain on the client the turn
  left, and its next model request carries the history as the turn extended it; when it
  is zero the loop returns, having made exactly one model request.
\<close>

theorem recursion_follows_tool_calls:
  assumes "consume e chain (c\<lparr>chat_log := chat_log c @ [(messages c, get_tools c)]\<rparr>) 0
             (chat e model (messages c) (get_tools c)) = (evs, c', Inr n)"
  shows "n = length (filter (\<lambda>p. message_content p = [] \<and> message_tool_calls p \<noteq> [])
                (chat e model (messages c) (get_tools c)))
    \<and> (0 < n \<longrightarrow>
          recursive_prompt e (Suc fuel) model chain c
            = (case recursive_prompt e fuel model chain c' of
                 (evs', c'', r) \<Rightarrow> (evs @ evs', c'', r))
          \<and> (\<exists>more. chat_log (fst (snd (recursive_prompt e (Suc (Suc fuel)) model chain c)))
                = chat_log c @ [(messages c, get_tools c), (messages c', get_tools c')] @ more))
    \<and> (n = 0 \<longrightarrow>
          recursive_prompt e (Suc fuel) model chain c = (evs, c', Returned)
          \<and> chat_log c' = chat_log c @ [(messages c, get_tools c)])"
proof -
  have cnt: "n = length (filter (\<lambda>p. message_content p = [] \<and> message_tool_calls p \<noteq> [])
                (chat e model (messages c) (get_tools c)))"
    using consume_count[OF assms] by simp
  have log: "chat_log c' = chat_log c @ [(messages c, get_tools c)]"
    using consume_frame[OF assms] by simp
  have unfold: "\<And>k. recursive_prompt e (Suc k) model chain c
      = (if 0 < n then (case recursive_prompt e k model chain c' of
                 (evs', c'', r) \<Rightarrow> (evs @ evs', c'', r)) else (evs, c', Returned))"
    using assms by simp
  have more: "\<exists>more. chat_log (fst (snd (recursive_prompt e (Suc (Suc fuel)) model chain c)))
                = chat_log c @ [(messages c, get_tools c), (messages c', get_tools c')] @ more"
    if pos: "0 < n"
  proof -
    obtain evs1 c1 r1 where rec: "recursive_prompt e (Suc fuel) model chain c' = (evs1, c1, r1)"
      by (metis prod_cases3)
    from recursive_prompt_first_request[OF rec] obtain more where
      m: "chat_log c1 = chat_log c' @ (messages c', get_tools c') # more" by blast
    have "recursive_prompt e (Suc (Suc fuel)) model chain c = (evs @ evs1, c1, r1)"
      using unfold[of "Suc fuel"] pos rec by (simp del: recursive_prompt.simps)
    then show ?thesis using m log by simp
  qed
  show ?thesis
    using cnt log unfold[of fuel] more by (simp del: recursive_prompt.simps)
qed

theorem recursion_follows_tool_calls_witness:
  "snd (snd (consume (scenario_env (scripted [[nearby_call]])) []
        (scenario_client\<lparr>messages := [\<lparr>role = ''user'', content = ''hai''\<rparr>],
                          user_token := Some ''T1'',
                          chat_log := [([\<lparr>role = ''user'', content = ''hai''\<rparr>],
                                        tools wallet_session @ tools places_session)]\<rparr>) 0
        (scripted [[nearby_call]] [\<lparr>role = ''user'', content = ''hai''\<rparr>]))) = Inr (Suc 0)
   \<and> snd (snd (recursive_prompt (scenario_env (scripted [[nearby_call]])) (Suc (Suc 0)) ''qwen3:8b'' []
        (scenario_client\<lparr>messages := [\<lparr>role = ''user'', content = ''hai''\<rparr>],
                          user_token := Some ''T1''\<rparr>))) = Returned
   \<and> length (chat_log (fst (snd (recursive_prompt (scenario_env (scripted [[nearby_call]]))
        (Suc (Suc 0)) ''qwen3:8b'' []
        (scenario_client\<lparr>messages := [\<lparr>role = ''user'', content = ''hai''\<rparr>],
                          user_token := Some ''T1''\<rparr>))))) = 2"
proof -
  let ?e = "scenario_env (scripted [[nearby_call]])"
  let ?c = "scenario_client\<lparr>messages := [\<lparr>role = ''user'', content = ''hai''\<rparr>],
                          user_token := Some ''T1''\<rparr>"
  let ?X = "consume ?e [] (?c\<lparr>chat_log := chat_log ?c @ [(messages ?c, get_tools ?c)]\<rparr>) 0
              (chat ?e ''qwen3:8b'' (messages ?c) (get_tools ?c))"
  have s: "snd (snd ?X) = Inr (Suc 0)"
    by (simp add: scenario_env_def scripted_def scenario_client_def nearby_call_def
        tool_call_step_def places_session_def wallet_session_def get_tools_def)
  have hx: "?X = (fst ?X, fst (snd ?X), Inr (Suc 0))"
    using s by (metis prod.collapse)
  note th = recursion_follows_tool_calls[OF hx, of 0]
  show ?thesis
    using th
    by (simp add: scenario_env_def scripted_def scenario_client_def nearby_call_def
        tool_call_step_def places_session_def wallet_session_def get_tools_def)
qed

text \<open>
  C9 on the code. The model asks for \<open>wallet/topup\<close> and \<open>bank/pay\<close> in one fragment.
  The call to \<open>wallet/topup\<close> reaches its provider, so a tool call occurred in the turn;
  the lookup of the provider \<open>bank\<close> then raises, and the run ends with that exception
  after its one model request: the loop does not recurse.
\<close>

theorem partial_batch_ends_without_recursion:
  "(case process_message (scenario_env (scripted [[topup_call, bank_call]])) (Suc (Suc 0))
           ''isi saldo'' ''qwen3:8b'' ''T1'' scenario_client of
      (evs, c', r) \<Rightarrow> (map cr_role evs, call_log c', map fst (chat_log c'), r))
   = ([''status'', ''status''],
      [(stdio_client ''wallet-cmd'', ''topup'', [(''amount'', JInt 50000)])],
      [[\<lparr>role = ''user'', content = ''isi saldo''\<rparr>]],
      Raised (KeyError ''bank''))"
proof -
  have b: "with_token (Some ''T1'') (function_arguments topup_call) = [(''amount'', JInt 50000)]"
    using topup_has_no_token by (simp add: with_token_def) (simp add: topup_call_def)
  have t: "function_name topup_call = ''wallet/topup''" by (simp add: topup_call_def)
  have k: "function_name bank_call = ''bank/pay''" by (simp add: bank_call_def)
  show ?thesis
    by (simp add: process_message_def scenario_env_def scripted_def scenario_client_def
        get_tools_def tool_call_step_def b t k wallet_session_def places_session_def
        result_message_def status_event_def)
qed

lemma consume_events_shape:
  "ev \<in> set (fst (consume e chain c cnt ps)) \<Longrightarrow>
     (\<exists>t. ev = assistant_event chain t) \<or> (\<exists>tool. ev = status_event chain tool)
     \<or> (\<exists>m. ev = result_event chain m)"
proof (induction e chain c cnt ps rule: consume.induct)
  case (1 e chain c cnt)
  then show ?case by simp
next
  case (2 e chain c cnt p ps)
  show ?case
  proof (cases "message_content p \<noteq> []")
    case True
    obtain evs0 c0 r0 where s: "consume e chain c cnt ps = (evs0, c0, r0)"
      by (metis prod_cases3)
    from "2.prems" True s have "ev = assistant_event chain (message_content p) \<or> ev \<in> set evs0"
      by simp
    with "2.IH"(1)[OF True] s show ?thesis by auto
  next
    case nc: False
    show ?thesis
    proof (cases "message_tool_calls p \<noteq> []")
      case False
      with nc "2.prems" have "ev \<in> set (fst (consume e chain c cnt ps))" by simp
      from "2.IH"(3)[OF nc False this] show ?thesis .
    next
      case True
      obtain r1 c1 where t: "tool_call e c (message_tool_calls p) chain = (r1, c1)"
        by (cases "tool_call e c (message_tool_calls p) chain")
      show ?thesis
      proof (cases r1)
        case (Inl err)
        with "2.prems" nc True t show ?thesis by auto
      next
        case (Inr msgs)
        obtain evs0 c0 r0 where s: "consume e chain (c1\<lparr>messages := messages c1 @ map tool_entry msgs\<rparr>) (cnt + 1) ps = (evs0, c0, r0)"
          by (metis prod_cases3)
        from "2.prems" nc True t Inr s
        have "ev \<in> set (map (status_event chain) (message_tool_calls p))
            \<or> ev \<in> set (map (result_event chain) msgs) \<or> ev \<in> set evs0"
          by auto
        with "2.IH"(2)[OF nc True t[symmetric, unfolded Inr] refl] s show ?thesis by auto
      qed
    qed
  qed
qed

lemma recursive_prompt_events_shape:
  "ev \<in> set (fst (recursive_prompt e fuel model chain c)) \<Longrightarrow>
     (\<exists>t. ev = assistant_event chain t) \<or> (\<exists>tool. ev = status_event chain tool)
     \<or> (\<exists>m. ev = result_event chain m)"
proof (induction fuel arbitrary: c)
  case 0
  then show ?case by simp
next
  case (Suc fuel)
  obtain evs0 c0 r0 where s: "consume e chain (c\<lparr>chat_log := chat_log c @ [(messages c, get_tools c)]\<rparr>) 0
             (chat e model (messages c) (get_tools c)) = (evs0, c0, r0)"
    by (metis prod_cases3)
  have "ev \<in> set evs0 \<or> ev \<in> set (fst (recursive_prompt e fuel model chain c0))"
    using Suc.prems s by (auto split: sum.splits if_splits prod.splits)
  then show ?case
  proof
    assume "ev \<in> set evs0"
    then have "ev \<in> set (fst (consume e chain (c\<lparr>chat_log := chat_log c @ [(messages c, get_tools c)]\<rparr>) 0
             (chat e model (messages c) (get_tools c))))" using s by simp
    from consume_events_shape[OF this] show ?thesis .
  next
    assume "ev \<in> set (fst (recursive_prompt e fuel model chain c0))"
    from Suc.IH[OF this] show ?thesis .
  qed
qed

text \<open>
  C4 (as amended). Every tool-result event carries the incoming tool chain of its turn,
  not extended by the tool's name (\<open>None\<close> when that chain is empty), while every
  calling-status event carries the chain extended by its tool's qualified name. Under
  \<open>process_message\<close> the incoming chain is empty, so results carry no chain and a
  status carries the one-element chain of its tool.
\<close>

theorem result_events_carry_incoming_chain:
  "(ev \<in> set (fst (recursive_prompt e fuel model chain c)) \<longrightarrow>
      (cr_role ev = ''tool'' \<longrightarrow> cr_tool_chain ev = (if chain \<noteq> [] then Some chain else None))
      \<and> (cr_role ev = ''status'' \<longrightarrow>
            cr_tool_status ev = Some ''calling''
            \<and> (\<exists>nm. cr_tool_name ev = Some nm \<and> cr_tool_chain ev = Some (chain @ [nm]))))
   \<and> (ev \<in> set (fst (process_message e fuel msg model token c)) \<longrightarrow>
      (cr_role ev = ''tool'' \<longrightarrow> cr_tool_chain ev = None)
      \<and> (cr_role ev = ''status'' \<longrightarrow>
            cr_tool_status ev = Some ''calling''
            \<and> (\<exists>nm. cr_tool_name ev = Some nm \<and> cr_tool_chain ev = Some [nm])))"
proof -
  have shape: "(cr_role ev = ''tool'' \<longrightarrow> cr_tool_chain ev = (if ch \<noteq> [] then Some ch else None))
      \<and> (cr_role ev = ''status'' \<longrightarrow>
            cr_tool_status ev = Some ''calling''
            \<and> (\<exists>nm. cr_tool_name ev = Some nm \<and> cr_tool_chain ev = Some (ch @ [nm])))"
    if "(\<exists>t. ev = assistant_event ch t) \<or> (\<exists>tool. ev = status_event ch tool)
     \<or> (\<exists>m. ev = result_event ch m)" for ch
    using that
    by (auto simp: assistant_event_def status_event_def result_event_def chain_opt_def)
  show ?thesis
    using shape[OF recursive_prompt_events_shape, of e fuel model chain c]
      shape[OF recursive_prompt_events_shape, of e fuel model "[]"
        "c\<lparr>messages := messages c @ [\<lparr>role = ''user'', content = msg\<rparr>], user_token := Some token\<rparr>"]
    by (simp add: process_message_def)
qed

theorem result_events_carry_incoming_chain_witness:
  "map (\<lambda>ev. (cr_role ev, cr_tool_chain ev))
     (fst (process_message (scenario_env (scripted [[nearby_call]])) (Suc (Suc 0))
             ''hai'' ''qwen3:8b'' ''T1'' scenario_client))
     = [(''status'', Some [''places/nearby'']), (''tool'', None), (''assistant'', None)]
   \<and> (\<exists>ev \<in> set (fst (process_message (scenario_env (scripted [[nearby_call]])) (Suc (Suc 0))
             ''hai'' ''qwen3:8b'' ''T1'' scenario_client)).
         cr_role ev = ''tool'' \<and> cr_tool_chain ev = None)"
proof -
  let ?run = "process_message (scenario_env (scripted [[nearby_call]])) (Suc (Suc 0))
             ''hai'' ''qwen3:8b'' ''T1'' scenario_client"
  have roles: "map (\<lambda>ev. (cr_role ev, cr_tool_chain ev)) (fst ?run)
     = [(''status'', Some [''places/nearby'']), (''tool'', None), (''assistant'', None)]"
    by (simp add: scenario_env_def scripted_def scenario_client_def nearby_call_def
        tool_call_step_def places_session_def wallet_session_def get_tools_def process_message_def
        status_event_def result_event_def assistant_event_def chain_opt_def)
  then have "(''tool'', None) \<in> set (map (\<lambda>ev. (cr_role ev, cr_tool_chain ev)) (fst ?run))"
    by simp
  then obtain ev where ev: "ev \<in> set (fst ?run)" "cr_role ev = ''tool''"
    by auto
  from result_events_carry_incoming_chain
         [of ev "scenario_env (scripted [[nearby_call]])" "Suc (Suc 0)" "''qwen3:8b''" "[]"
             scenario_client "''hai''" "''T1''"] ev
  have "cr_tool_chain ev = None" by blast
  with ev roles show ?thesis by blast
qed

text \<open>
  C4 as stated fails: the result event of the call to \<open>places/nearby\<close> carries no tool
  chain, while its status event carries the chain \<open>[places/nearby]\<close>.
\<close>

theorem result_event_chain_counterexample:
  "(case process_message (scenario_env (scripted [[nearby_call]])) (Suc (Suc 0))
             ''hai'' ''qwen3:8b'' ''T1'' scenario_client of
      (evs, c', r) \<Rightarrow> (map (\<lambda>ev. (cr_role ev, cr_tool_name ev, cr_tool_chain ev)) evs, r))
   = ([(''status'', Some ''places/nearby'', Some [''places/nearby'']),
       (''tool'', None, None),
       (''assistant'', None, None)], Returned)"
  by (simp add: scenario_env_def scripted_def scenario_client_def nearby_call_def
        tool_call_step_def places_session_def wallet_session_def get_tools_def process_message_def
        status_event_def result_event_def assistant_event_def chain_opt_def)

text \<open>
  C6 (as amended). For every fragment that carries no text and N tool-call requests, the
  events of that fragment begin with exactly N calling-status events in request order;
  they come before every result event of that fragment: when dispatch raises, nothing
  follows them, otherwise the N result events follow, and then the events of the rest of
  the stream.
\<close>

theorem statuses_precede_results_of_their_batch:
  assumes "message_content p = []" and "message_tool_calls p \<noteq> []"
  shows "(case tool_call e c (message_tool_calls p) chain of
            (Inl err, c1) \<Rightarrow>
              consume e chain c cnt (p # ps)
                = (map (status_event chain) (message_tool_calls p), c1, Inl err)
          | (Inr msgs, c1) \<Rightarrow>
              length msgs = length (message_tool_calls p)
              \<and> map cr_role (map (result_event chain) msgs) = replicate (length msgs) ''tool''
              \<and> fst (consume e chain c cnt (p # ps))
                  = map (status_event chain) (message_tool_calls p)
                    @ map (result_event chain) msgs
                    @ fst (consume e chain (c1\<lparr>messages := messages c1 @ map tool_entry msgs\<rparr>)
                             (cnt + 1) ps))
    \<and> map (\<lambda>ev. (cr_role ev, cr_tool_status ev, cr_tool_name ev))
          (map (status_event chain) (message_tool_calls p))
        = map (\<lambda>tool. (''status'', Some ''calling'', Some (function_name tool)))
            (message_tool_calls p)"
proof -
  obtain r1 c1 where t: "tool_call e c (message_tool_calls p) chain = (r1, c1)"
    by (cases "tool_call e c (message_tool_calls p) chain")
  have roles: "map cr_role (map (result_event chain) ms) = replicate (length ms) ''tool''" for ms
    by (induction ms) (simp_all add: result_event_def)
  have first: "(case tool_call e c (message_tool_calls p) chain of
            (Inl err, c1) \<Rightarrow>
              consume e chain c cnt (p # ps)
                = (map (status_event chain) (message_tool_calls p), c1, Inl err)
          | (Inr msgs, c1) \<Rightarrow>
              length msgs = length (message_tool_calls p)
              \<and> map cr_role (map (result_event chain) msgs) = replicate (length msgs) ''tool''
              \<and> fst (consume e chain c cnt (p # ps))
                  = map (status_event chain) (message_tool_calls p)
                    @ map (result_event chain) msgs
                    @ fst (consume e chain (c1\<lparr>messages := messages c1 @ map tool_entry msgs\<rparr>)
                             (cnt + 1) ps))"
  proof (cases r1)
    case (Inl err)
    with t assms show ?thesis by simp
  next
    case (Inr msgs)
    with t tool_call_length[of e c "message_tool_calls p" chain msgs c1] assms roles[of msgs]
    show ?thesis by (simp split: prod.splits)
  qed
  have second: "map (\<lambda>ev. (cr_role ev, cr_tool_status ev, cr_tool_name ev))
          (map (status_event chain) (message_tool_calls p))
        = map (\<lambda>tool. (''status'', Some ''calling'', Some (function_name tool)))
            (message_tool_calls p)"
    by (simp add: status_event_def)
  from first second show ?thesis by blast
qed

theorem statuses_precede_results_of_their_batch_witness:
  "map (\<lambda>ev. (cr_role ev, cr_tool_name ev))
     (fst (consume (scenario_env (scripted [])) []
             (scenario_client\<lparr>user_token := Some ''T1''\<rparr>) 0
             [\<lparr>message_content = [], message_tool_calls = [nearby_call, topup_call]\<rparr>]))
   = [(''status'', Some ''places/nearby''), (''status'', Some ''wallet/topup''),
      (''tool'', None), (''tool'', None)]"
proof -
  let ?p = "\<lparr>message_content = [], message_tool_calls = [nearby_call, topup_call]\<rparr>"
  have a: "message_content ?p = []" and b: "message_tool_calls ?p \<noteq> []" by simp_all
  show ?thesis
    using statuses_precede_results_of_their_batch[OF a b, where e = "scenario_env (scripted [])"
      and c = "scenario_client\<lparr>user_token := Some ''T1''\<rparr>" and chain = "[]" and cnt = 0
      and ps = "[]"]
    by (simp add: scenario_env_def scripted_def scenario_client_def nearby_call_def topup_call_def
        tool_call_step_def places_session_def wallet_session_def
        status_event_def result_event_def)
qed

text \<open>
  C6 as stated fails: in a turn of two tool-call fragments the status event of the
  second batch comes after the result event of the first.
\<close>

theorem status_after_result_in_turn_counterexample:
  "(case process_message (scenario_env (scripted [[nearby_call], [topup_call]])) (Suc (Suc 0))
             ''hai'' ''qwen3:8b'' ''T1'' scenario_client of
      (evs, c', r) \<Rightarrow> (map (\<lambda>ev. (cr_role ev, cr_tool_name ev)) evs, length (chat_log c'), r))
   = ([(''status'', Some ''places/nearby''), (''tool'', None),
       (''status'', Some ''wallet/topup''), (''tool'', None),
       (''assistant'', None)], 2, Returned)"
  by (simp add: scenario_env_def scripted_def scenario_client_def nearby_call_def topup_call_def
        tool_call_step_def places_session_def wallet_session_def get_tools_def process_message_def
        status_event_def result_event_def assistant_event_def)

lemma tool_call_step_cases:
  "tool_call_step e c tool = (r, c') \<Longrightarrow>
     (\<exists>err. r = Inl err \<and> c' = c)
     \<or> (\<exists>chan tn. r = Inr (result_message tool (with_token (user_token c) (function_arguments tool))
                          (call_tool e (call_log c) chan tn
                             (with_token (user_token c) (function_arguments tool))))
           \<and> c' = c\<lparr>call_log := call_log c
                  @ [(chan, tn, with_token (user_token c) (function_arguments tool))]\<rparr>)"
  by (auto simp: tool_call_step_def split: option.splits list.splits)

lemma tool_call_sent:
  "tool_call e c calls chain = (r, c') \<Longrightarrow>
     \<exists>sent. call_log c' = call_log c @ sent \<and> length sent \<le> length calls
       \<and> (\<forall>i<length sent. snd (snd (sent ! i))
              = with_token (user_token c) (function_arguments (calls ! i)))
       \<and> (\<forall>msgs. r = Inr msgs \<longrightarrow>
             length sent = length calls
             \<and> (\<forall>i<length calls. msgs ! i
                   = result_message (calls ! i) (snd (snd (sent ! i)))
                       (call_tool e (call_log c @ take i sent) (fst (sent ! i))
                          (fst (snd (sent ! i))) (snd (snd (sent ! i))))))"
proof (induction calls arbitrary: c r c')
  case Nil
  then show ?case by simp
next
  case (Cons tool rest)
  obtain r1 c1 where s1: "tool_call_step e c tool = (r1, c1)" by (cases "tool_call_step e c tool")
  from tool_call_step_cases[OF s1] show ?case
  proof
    assume "\<exists>err. r1 = Inl err \<and> c1 = c"
    then obtain err where "r1 = Inl err" "c1 = c" by blast
    with Cons.prems s1 have "r = Inl err" "c' = c" by simp_all
    then show ?thesis by (intro exI[of _ "[]"]) simp
  next
    assume "\<exists>chan tn. r1 = Inr (result_message tool (with_token (user_token c) (function_arguments tool))
                          (call_tool e (call_log c) chan tn
                             (with_token (user_token c) (function_arguments tool))))
           \<and> c1 = c\<lparr>call_log := call_log c
                  @ [(chan, tn, with_token (user_token c) (function_arguments tool))]\<rparr>"
    then obtain chan tn where
      r1: "r1 = Inr (result_message tool (with_token (user_token c) (function_arguments tool))
                          (call_tool e (call_log c) chan tn
                             (with_token (user_token c) (function_arguments tool))))"
      and c1: "c1 = c\<lparr>call_log := call_log c
                  @ [(chan, tn, with_token (user_token c) (function_arguments tool))]\<rparr>"
      by blast
    let ?x = "(chan, tn, with_token (user_token c) (function_arguments tool))"
    let ?m = "result_message tool (with_token (user_token c) (function_arguments tool))
                          (call_tool e (call_log c) chan tn
                             (with_token (user_token c) (function_arguments tool)))"
    obtain r2 c2 where s2: "tool_call e c1 rest chain = (r2, c2)" by (cases "tool_call e c1 rest chain")
    from Cons.IH[OF s2] obtain sent where
      log: "call_log c2 = call_log c1 @ sent" and len: "length sent \<le> length rest"
      and args: "\<forall>i<length sent. snd (snd (sent ! i))
              = with_token (user_token c1) (function_arguments (rest ! i))"
      and msgs: "\<forall>msgs. r2 = Inr msgs \<longrightarrow>
             length sent = length rest
             \<and> (\<forall>i<length rest. msgs ! i
                   = result_message (rest ! i) (snd (snd (sent ! i)))
                       (call_tool e (call_log c1 @ take i sent) (fst (sent ! i))
                          (fst (snd (sent ! i))) (snd (snd (sent ! i)))))"
      by blast
    have c': "c' = c2" using Cons.prems s1 r1 s2 by (auto split: sum.splits)
    have r: "r = (case r2 of Inl err \<Rightarrow> Inl err | Inr ms \<Rightarrow> Inr (?m # ms))"
      using Cons.prems s1 r1 s2 by (auto split: sum.splits)
    have tok: "user_token c1 = user_token c" and l1: "call_log c1 = call_log c @ [?x]"
      by (simp_all add: c1)
    show ?thesis
    proof (intro exI[of _ "?x # sent"] conjI allI impI)
      show "call_log c' = call_log c @ ?x # sent" using c' log l1 by simp
      show "length (?x # sent) \<le> length (tool # rest)" using len by simp
    next
      fix i assume "i < length (?x # sent)"
      then show "snd (snd ((?x # sent) ! i))
          = with_token (user_token c) (function_arguments ((tool # rest) ! i))"
        using args tok by (cases i) simp_all
    next
      fix ms assume rm: "r = Inr ms"
      then obtain ms2 where r2: "r2 = Inr ms2" and ms: "ms = ?m # ms2"
        using r by (cases r2) auto
      from msgs r2 show "length (?x # sent) = length (tool # rest)" by simp
    next
      fix ms i assume rm: "r = Inr ms" and i: "i < length (tool # rest)"
      then obtain ms2 where r2: "r2 = Inr ms2" and ms: "ms = ?m # ms2"
        using r by (cases r2) auto
      show "ms ! i = result_message ((tool # rest) ! i) (snd (snd ((?x # sent) ! i)))
                (call_tool e (call_log c @ take i (?x # sent)) (fst ((?x # sent) ! i))
                   (fst (snd ((?x # sent) ! i))) (snd (snd ((?x # sent) ! i))))"
      proof (cases i)
        case 0
        then show ?thesis by (simp add: ms)
      next
        case (Suc j)
        with i have j: "j < length rest" by simp
        from msgs r2 j have "ms2 ! j = result_message (rest ! j) (snd (snd (sent ! j)))
                       (call_tool e (call_log c1 @ take j sent) (fst (sent ! j))
                          (fst (snd (sent ! j))) (snd (snd (sent ! j))))" by blast
        then show ?thesis by (simp add: Suc ms l1)
      qed
    qed
  qed
qed

section \<open>Properties of the token injection and the tool messages\<close>

lemma startswith_iff: "startswith s sub \<longleftrightarrow> (\<exists>q. s = sub @ q)"
  by (induction s sub rule: startswith.induct) auto

lemma py_in_iff: "py_in sub s \<longleftrightarrow> (\<exists>p q. s = p @ sub @ q)"
proof (induction s)
  case Nil
  then show ?case by auto
next
  case (Cons c cs)
  show ?case
  proof
    assume "py_in sub (c # cs)"
    then consider "startswith (c # cs) sub" | "py_in sub cs" by auto
    then show "\<exists>p q. c # cs = p @ sub @ q"
    proof cases
      case 1
      then obtain q where "c # cs = sub @ q" using startswith_iff by blast
      then have "c # cs = [] @ sub @ q" by simp
      then show ?thesis by blast
    next
      case 2
      with Cons.IH obtain p q where "cs = p @ sub @ q" by blast
      then have "c # cs = (c # p) @ sub @ q" by simp
      then show ?thesis by blast
    qed
  next
    assume "\<exists>p q. c # cs = p @ sub @ q"
    then obtain p q where pq: "c # cs = p @ sub @ q" by blast
    show "py_in sub (c # cs)"
    proof (cases p)
      case Nil
      with pq have "startswith (c # cs) sub" using startswith_iff by auto
      then show ?thesis by simp
    next
      case (Cons a p')
      with pq have "cs = p' @ sub @ q" by simp
      with Cons.IH have "py_in sub cs" by blast
      then show ?thesis by simp
    qed
  qed
qed

lemma join_holds_element:
  "x \<in> set xs \<Longrightarrow> \<exists>p q. join sep xs = p @ x @ q"
proof (induction sep xs rule: join.induct)
  case (1 sep)
  then show ?case by simp
next
  case (2 sep y)
  then have "join sep [y] = [] @ x @ []" by simp
  then show ?case by blast
next
  case (3 sep y z zs)
  show ?case
  proof (cases "x = y")
    case True
    then have "join sep (y # z # zs) = [] @ x @ (sep @ join sep (z # zs))" by simp
    then show ?thesis by blast
  next
    case False
    with "3.prems" have "x \<in> set (z # zs)" by simp
    from "3.IH"[OF this] obtain p q where "join sep (z # zs) = p @ x @ q" by blast
    then have "join sep (y # z # zs) = (y @ sep @ p) @ x @ q" by simp
    then show ?thesis by blast
  qed
qed

lemma repr_str_token: "repr_str ''token'' = [CHR 0x27] @ ''token'' @ [CHR 0x27]"
  by (simp add: repr_str_def repr_quote_def repr_char_def isprintable_def)

lemma token_key_in_py_str:
  assumes "''token'' \<in> fst ` set tool_args"
  shows "py_in ''token'' (py_str tool_args)"
proof -
  from assms obtain v where kv: "(''token'', v) \<in> set tool_args" by auto
  let ?item = "\<lambda>(k, v). repr_str k @ '': '' @ py_repr v"
  have "repr_str ''token'' @ '': '' @ py_repr v \<in> set (map ?item tool_args)"
    using kv by force
  from join_holds_element[OF this, of "'', ''"] obtain p q where
    j: "join '', '' (map ?item tool_args) = p @ (repr_str ''token'' @ '': '' @ py_repr v) @ q"
    by blast
  have "py_str tool_args
      = (''{'' @ p @ [CHR 0x27]) @ ''token'' @ ([CHR 0x27] @ '': '' @ py_repr v @ q @ ''}'')"
    using j by (simp add: py_str_def repr_str_token)
  then show ?thesis using py_in_iff by blast
qed

lemma tool_call_step_channels:
  assumes "\<forall>k. map_option session (map_of srv' k) = map_option session (map_of (selected_server c) k)"
  shows "tool_call_step e (c\<lparr>selected_server := srv'\<rparr>) tool
    = (case tool_call_step e c tool of (r, c') \<Rightarrow> (r, c'\<lparr>selected_server := srv'\<rparr>))"
proof -
  let ?k = "hd (str_split CHR ''/'' (function_name tool))"
  from assms have k: "map_option session (map_of srv' ?k) = map_option session (map_of (selected_server c) ?k)"
    by blast
  show ?thesis
  proof (cases "map_of (selected_server c) ?k")
    case None
    with k have "map_of srv' ?k = None" by simp
    with None show ?thesis by (simp add: tool_call_step_def)
  next
    case (Some server)
    with k obtain server' where s': "map_of srv' ?k = Some server'" and ch: "session server' = session server"
      by (cases "map_of srv' ?k") auto
    show ?thesis
      by (simp add: tool_call_step_def Some s' ch split: list.splits)
  qed
qed

lemma tool_call_channels:
  assumes "\<forall>k. map_option session (map_of srv' k) = map_option session (map_of (selected_server c) k)"
  shows "tool_call e (c\<lparr>selected_server := srv'\<rparr>) calls chain
    = (case tool_call e c calls chain of (r, c') \<Rightarrow> (r, c'\<lparr>selected_server := srv'\<rparr>))"
  using assms
proof (induction calls arbitrary: c)
  case Nil
  then show ?case by simp
next
  case (Cons tool rest)
  obtain r1 c1 where s1: "tool_call_step e c tool = (r1, c1)" by (cases "tool_call_step e c tool")
  have s1': "tool_call_step e (c\<lparr>selected_server := srv'\<rparr>) tool = (r1, c1\<lparr>selected_server := srv'\<rparr>)"
    using tool_call_step_channels[OF Cons.prems, of e tool] s1 by simp
  have sel: "selected_server c1 = selected_server c"
    using tool_call_step_frame[OF s1] by simp
  show ?case
  proof (cases r1)
    case (Inl err)
    with s1 s1' show ?thesis by simp
  next
    case (Inr msg)
    have ih: "tool_call e (c1\<lparr>selected_server := srv'\<rparr>) rest chain
        = (case tool_call e c1 rest chain of (r, c') \<Rightarrow> (r, c'\<lparr>selected_server := srv'\<rparr>))"
      using Cons.IH[of c1] Cons.prems sel by simp
    show ?thesis
      using s1 s1' Inr ih by (simp split: prod.splits sum.splits)
  qed
qed

lemma map_of_tools_update:
  "map_option session (map_of (map (\<lambda>(nm, server). (nm, server\<lparr>tools := schemas nm\<rparr>)) srv) k)
     = map_option session (map_of srv k)"
  by (induction srv) auto

lemma tool_call_nth_sent:
  assumes "tool_call e c calls chain = (r, c')"
    and "i < length (call_log c') - length (call_log c)"
  shows "snd (snd (call_log c' ! (length (call_log c) + i)))
           = with_token (user_token c) (function_arguments (calls ! i))"
proof -
  from tool_call_sent[OF assms(1)] obtain sent where
    log: "call_log c' = call_log c @ sent"
    and args: "\<forall>i<length sent. snd (snd (sent ! i))
              = with_token (user_token c) (function_arguments (calls ! i))"
    by blast
  from assms(2) log have "i < length sent" by simp
  with args log show ?thesis by simp
qed

lemma scenario_batch:
  "tool_call (scenario_env (scripted [])) (scenario_client\<lparr>user_token := Some ''T1''\<rparr>)
     [nearby_call, topup_call] []
   = (Inr [success_message nearby_call
             [(''lat'', JFloat ''-6.19''), (''lon'', JFloat ''106.82''), (''token'', JStr ''T1'')] ''ok'',
           success_message topup_call [(''amount'', JInt 50000)] ''ok''],
      scenario_client\<lparr>user_token := Some ''T1'',
        call_log := [(sse_client ''places-url'', ''nearby'',
                      [(''lat'', JFloat ''-6.19''), (''lon'', JFloat ''106.82''), (''token'', JStr ''T1'')]),
                     (stdio_client ''wallet-cmd'', ''topup'', [(''amount'', JInt 50000)])]\<rparr>)"
proof -
  have a: "with_token (Some ''T1'') (function_arguments nearby_call)
      = [(''lat'', JFloat ''-6.19''), (''lon'', JFloat ''106.82''), (''token'', JStr ''T1'')]"
    using nearby_has_token by (simp add: with_token_def) (simp add: nearby_call_def)
  have b: "with_token (Some ''T1'') (function_arguments topup_call) = [(''amount'', JInt 50000)]"
    using topup_has_no_token by (simp add: with_token_def) (simp add: topup_call_def)
  have n: "function_name nearby_call = ''places/nearby''" by (simp add: nearby_call_def)
  have t: "function_name topup_call = ''wallet/topup''" by (simp add: topup_call_def)
  show ?thesis
    by (simp add: tool_call_step_def a b n t scenario_client_def scenario_env_def
        places_session_def wallet_session_def result_message_def)
qed

text \<open>
  C10 (as amended). For every remote call the dispatcher makes, with side-channel token
  \<open>t\<close>, the arguments sent are the call's arguments with \<open>token\<close> set to \<open>t\<close> exactly
  when \<open>t\<close> is not empty and \<open>token\<close> occurs in the string rendering of the call's
  arguments, and the call's own arguments otherwise; so nothing is injected when the
  rendering does not mention \<open>token\<close>. Replacing the declared tools and schemas of the
  sessions changes neither the result nor the calls made.
\<close>

theorem token_injection_is_a_substring_test:
  assumes "tool_call e c calls chain = (r, c')"
    and "i < length (call_log c') - length (call_log c)"
    and "user_token c = Some t"
  shows "snd (snd (call_log c' ! (length (call_log c) + i)))
           = (if t \<noteq> [] \<and> py_in ''token'' (py_str (function_arguments (calls ! i)))
              then AList.update ''token'' (JStr t) (function_arguments (calls ! i))
              else function_arguments (calls ! i))
    \<and> tool_call e
         (c\<lparr>selected_server :=
              map (\<lambda>(nm, server). (nm, server\<lparr>tools := schemas nm\<rparr>)) (selected_server c)\<rparr>)
         calls chain
        = (r, c'\<lparr>selected_server :=
                  map (\<lambda>(nm, server). (nm, server\<lparr>tools := schemas nm\<rparr>)) (selected_server c)\<rparr>)"
proof -
  have "\<forall>k. map_option session
          (map_of (map (\<lambda>(nm, server). (nm, server\<lparr>tools := schemas nm\<rparr>)) (selected_server c)) k)
        = map_option session (map_of (selected_server c) k)"
    by (simp add: map_of_tools_update)
  from tool_call_channels[OF this, of e calls chain] assms(1)
  have indep: "tool_call e
         (c\<lparr>selected_server :=
              map (\<lambda>(nm, server). (nm, server\<lparr>tools := schemas nm\<rparr>)) (selected_server c)\<rparr>)
         calls chain
        = (r, c'\<lparr>selected_server :=
                  map (\<lambda>(nm, server). (nm, server\<lparr>tools := schemas nm\<rparr>)) (selected_server c)\<rparr>)"
    by simp
  show ?thesis
    using tool_call_nth_sent[OF assms(1,2)] assms(3) indep
    by (simp add: with_token_def)
qed

theorem token_injection_is_a_substring_test_witness:
  "map (\<lambda>call. snd (snd call))
     (call_log (snd (tool_call (scenario_env (scripted []))
                       (scenario_client\<lparr>user_token := Some ''T1''\<rparr>)
                       [nearby_call, topup_call] [])))
   = [AList.update ''token'' (JStr ''T1'') (function_arguments nearby_call),
      function_arguments topup_call]"
proof -
  let ?c = "scenario_client\<lparr>user_token := Some ''T1''\<rparr>"
  let ?c' = "scenario_client\<lparr>user_token := Some ''T1'',
        call_log := [(sse_client ''places-url'', ''nearby'',
                      [(''lat'', JFloat ''-6.19''), (''lon'', JFloat ''106.82''), (''token'', JStr ''T1'')]),
                     (stdio_client ''wallet-cmd'', ''topup'', [(''amount'', JInt 50000)])]\<rparr>"
  have l0: "0 < length (call_log ?c') - length (call_log ?c)"
    and l1: "1 < length (call_log ?c') - length (call_log ?c)"
    by (simp_all add: scenario_client_def)
  have tok: "user_token ?c = Some ''T1''" by simp
  note th0 = token_injection_is_a_substring_test[OF scenario_batch l0 tok, THEN conjunct1]
  note th1 = token_injection_is_a_substring_test[OF scenario_batch l1 tok, THEN conjunct1]
  have len: "length (call_log ?c') = 2" and len0: "length (call_log ?c) = 0"
    by (simp_all add: scenario_client_def)
  have "map (\<lambda>call. snd (snd call)) (call_log ?c')
      = [snd (snd (call_log ?c' ! (length (call_log ?c) + 0))),
         snd (snd (call_log ?c' ! (length (call_log ?c) + 1)))]"
    by (simp add: scenario_client_def)
  also have "\<dots> = [AList.update ''token'' (JStr ''T1'') (function_arguments nearby_call),
      function_arguments topup_call]"
    unfolding th0 th1 using nearby_has_token topup_has_no_token by simp
  finally have fin: "map (\<lambda>call. snd (snd call)) (call_log ?c')
      = [AList.update ''token'' (JStr ''T1'') (function_arguments nearby_call),
         function_arguments topup_call]" .
  show ?thesis unfolding scenario_batch snd_conv by (rule fin)
qed

text \<open>
  C10 as stated fails in its last clause: the model passes no \<open>token\<close> argument, but
  the value of \<open>keyword\<close> is the word \<open>token\<close>, and the side-channel token is injected.
\<close>

theorem token_injected_without_token_argument_counterexample:
  "(case process_message (scenario_env (scripted [[keyword_call]])) (Suc (Suc 0))
           ''cari token'' ''qwen3:8b'' ''T1'' scenario_client of
      (evs, c', r) \<Rightarrow> (map fst (function_arguments keyword_call), call_log c', r))
   = ([''keyword''],
      [(sse_client ''places-url'', ''nearby'',
        [(''keyword'', JStr ''token''), (''token'', JStr ''T1'')])], Returned)"
proof -
  have k: "py_in ''token'' (py_str (function_arguments keyword_call))"
    by (simp add: keyword_call_def py_str_def repr_str_def repr_quote_def repr_char_def
        isprintable_def)
  have a: "with_token (Some ''T1'') (function_arguments keyword_call)
      = [(''keyword'', JStr ''token''), (''token'', JStr ''T1'')]"
    using k by (simp add: with_token_def) (simp add: keyword_call_def)
  have n: "function_name keyword_call = ''places/nearby''" by (simp add: keyword_call_def)
  have f: "map fst (function_arguments keyword_call) = [''keyword'']"
    by (simp add: keyword_call_def)
  show ?thesis
    by (simp add: process_message_def scenario_env_def scripted_def scenario_client_def
        get_tools_def tool_call_step_def a n f wallet_session_def places_session_def
        result_message_def)
qed

text \<open>
  The override itself: for every remote call the dispatcher makes whose arguments carry
  a \<open>token\<close> key, or mention \<open>token\<close> anywhere in their string rendering, a non-empty
  side-channel token replaces any caller-supplied value in the arguments that are sent.
\<close>

theorem token_overrides_caller_value:
  assumes "tool_call e c calls chain = (r, c')"
    and "i < length (call_log c') - length (call_log c)"
    and "user_token c = Some t" and "t \<noteq> []"
    and "''token'' \<in> fst ` set (function_arguments (calls ! i))
         \<or> py_in ''token'' (py_str (function_arguments (calls ! i)))"
  shows "snd (snd (call_log c' ! (length (call_log c) + i)))
           = AList.update ''token'' (JStr t) (function_arguments (calls ! i))
    \<and> map_of (snd (snd (call_log c' ! (length (call_log c) + i)))) ''token'' = Some (JStr t)"
proof -
  from assms(5) have "py_in ''token'' (py_str (function_arguments (calls ! i)))"
    using token_key_in_py_str by blast
  then show ?thesis
    using tool_call_nth_sent[OF assms(1,2)] assms(3,4)
    by (simp add: with_token_def update_conv')
qed

theorem token_overrides_caller_value_witness:
  "map_of (function_arguments nearby_call) ''token'' = Some (JStr ''bogus'')
   \<and> map_of (snd (snd (call_log (snd (tool_call (scenario_env (scripted []))
                       (scenario_client\<lparr>user_token := Some ''T1''\<rparr>)
                       [nearby_call, topup_call] [])) ! 0))) ''token'' = Some (JStr ''T1'')"
proof -
  let ?c = "scenario_client\<lparr>user_token := Some ''T1''\<rparr>"
  let ?c' = "scenario_client\<lparr>user_token := Some ''T1'',
        call_log := [(sse_client ''places-url'', ''nearby'',
                      [(''lat'', JFloat ''-6.19''), (''lon'', JFloat ''106.82''), (''token'', JStr ''T1'')]),
                     (stdio_client ''wallet-cmd'', ''topup'', [(''amount'', JInt 50000)])]\<rparr>"
  have l0: "0 < length (call_log ?c') - length (call_log ?c)"
    by (simp add: scenario_client_def)
  have tok: "user_token ?c = Some ''T1''" by simp
  have ne: "''T1'' \<noteq> []" by simp
  have key: "''token'' \<in> fst ` set (function_arguments ([nearby_call, topup_call] ! 0))
       \<or> py_in ''token'' (py_str (function_arguments ([nearby_call, topup_call] ! 0)))"
    by (simp add: nearby_call_def)
  have len0: "length (call_log ?c) + 0 = 0" by (simp add: scenario_client_def)
  note th = token_overrides_caller_value[OF scenario_batch l0 tok ne key, THEN conjunct2,
      unfolded len0]
  have bogus: "map_of (function_arguments nearby_call) ''token'' = Some (JStr ''bogus'')"
    by (simp add: nearby_call_def)
  show ?thesis unfolding scenario_batch snd_conv using bogus th by blast
qed

text \<open>
  C3 on the code. The schema of \<open>wallet/topup\<close> declares and requires a \<open>token\<close> field
  and the side channel holds \<open>T1\<close>, but the model passes only \<open>amount\<close>: the call is
  sent to the provider without a token.
\<close>

theorem required_token_is_not_injected:
  "(case process_message (scenario_env (scripted [[topup_call]])) (Suc (Suc 0))
           ''isi saldo'' ''qwen3:8b'' ''T1'' scenario_client of
      (evs, c', r) \<Rightarrow> (map fn_parameters (get_tools c'), user_token c', call_log c', r))
   = ([token_schema, token_schema], Some ''T1'',
      [(stdio_client ''wallet-cmd'', ''topup'', [(''amount'', JInt 50000)])], Returned)"
proof -
  have b: "with_token (Some ''T1'') (function_arguments topup_call) = [(''amount'', JInt 50000)]"
    using topup_has_no_token by (simp add: with_token_def) (simp add: topup_call_def)
  have t: "function_name topup_call = ''wallet/topup''" by (simp add: topup_call_def)
  show ?thesis
    by (simp add: process_message_def scenario_env_def scripted_def scenario_client_def
        get_tools_def tool_call_step_def b t wallet_session_def places_session_def
        result_message_def)
qed

text \<open>
  C1 on the code. A request for \<open>wallet/topup\<close> while only \<open>places\<close> is active, a request
  for the name \<open>nearby\<close> and a request for the name \<open>places\<close> each end the run with an
  exception (\<open>KeyError\<close>, \<open>KeyError\<close>, \<open>IndexError\<close>) right after the status event; no
  tool entry is appended to the history.
\<close>

theorem routing_failure_leaves_the_loop:
  "(case process_message (scenario_env (scripted [[topup_call]])) (Suc (Suc 0))
           ''isi saldo'' ''qwen3:8b'' ''T1'' (select_server scenario_client [''places'']) of
      (evs, c', r) \<Rightarrow> (map cr_role evs, map role (messages c'), r))
     = ([''status''], [''user''], Raised (KeyError ''wallet''))
   \<and> (case process_message
           (scenario_env (scripted [[\<lparr>function_name = ''nearby'', function_arguments = []\<rparr>]]))
           (Suc (Suc 0)) ''cari'' ''qwen3:8b'' ''T1'' scenario_client of
      (evs, c', r) \<Rightarrow> (map cr_role evs, map role (messages c'), r))
     = ([''status''], [''user''], Raised (KeyError ''nearby''))
   \<and> (case process_message
           (scenario_env (scripted [[\<lparr>function_name = ''places'', function_arguments = []\<rparr>]]))
           (Suc (Suc 0)) ''cari'' ''qwen3:8b'' ''T1'' scenario_client of
      (evs, c', r) \<Rightarrow> (map cr_role evs, map role (messages c'), r))
     = ([''status''], [''user''], Raised IndexError)"
proof -
  have t: "function_name topup_call = ''wallet/topup''" by (simp add: topup_call_def)
  show ?thesis
    by (simp add: process_message_def scenario_env_def scripted_def scenario_client_def
        select_server_def get_tools_def tool_call_step_def t status_event_def)
qed

lemma consume_extends:
  "consume e chain c cnt ps = (evs, c', r) \<Longrightarrow>
     (\<exists>ms. messages c' = messages c @ ms) \<and> (\<exists>log. call_log c' = call_log c @ log)"
proof (induction e chain c cnt ps arbitrary: evs c' r rule: consume.induct)
  case (1 e chain c cnt)
  then show ?case by simp
next
  case (2 e chain c cnt p ps)
  show ?case
  proof (cases "message_content p \<noteq> []")
    case True
    obtain evs0 c0 r0 where s: "consume e chain c cnt ps = (evs0, c0, r0)"
      by (metis prod_cases3)
    from "2.prems" True s have "c' = c0" by simp
    with "2.IH"(1)[OF True s] show ?thesis by simp
  next
    case nc: False
    show ?thesis
    proof (cases "message_tool_calls p \<noteq> []")
      case False
      with nc "2.prems" have "consume e chain c cnt ps = (evs, c', r)" by simp
      from "2.IH"(3)[OF nc False this] show ?thesis .
    next
      case True
      obtain r1 c1 where t: "tool_call e c (message_tool_calls p) chain = (r1, c1)"
        by (cases "tool_call e c (message_tool_calls p) chain")
      from tool_call_frame[OF t] have m1: "messages c1 = messages c" by simp
      from tool_call_sent[OF t] obtain sent where l1: "call_log c1 = call_log c @ sent" by blast
      show ?thesis
      proof (cases r1)
        case (Inl err)
        with "2.prems" nc True t have "c' = c1" by simp
        with m1 l1 show ?thesis by simp
      next
        case (Inr msgs)
        obtain evs0 c0 r0 where s: "consume e chain (c1\<lparr>messages := messages c1 @ map tool_entry msgs\<rparr>) (cnt + 1) ps = (evs0, c0, r0)"
          by (metis prod_cases3)
        from "2.prems" nc True t Inr s have c': "c' = c0" by simp
        from "2.IH"(2)[OF nc True t[symmetric, unfolded Inr] refl s]
        obtain ms log where "messages c0 = (messages c1 @ map tool_entry msgs) @ ms"
          and "call_log c0 = call_log c1 @ log" by auto
        with c' m1 l1 show ?thesis by simp
      qed
    qed
  qed
qed

text \<open>
  The tool entries of a batch that is dispatched without a routing failure: when the
  provider answers the i-th call with text, the i-th history entry the batch appends is
  a tool entry whose content is the qualified tool name, the rendering of the arguments
  that were sent (the call's arguments after the token injection) and the provider's
  text, in the fixed layout of \<open>_tool_call\<close>; the batch's i-th result event carries the
  same content.
\<close>

theorem tool_message_records_call:
  assumes "message_content p = []" and "message_tool_calls p \<noteq> []"
    and "tool_call e c (message_tool_calls p) chain = (Inr msgs, c1)"
    and "consume e chain c cnt (p # ps) = (evs, c', r)"
    and "i < length (message_tool_calls p)"
    and "call_log c' ! (length (call_log c) + i) = (chan, tname, sent)"
    and "call_tool e (take (length (call_log c) + i) (call_log c')) chan tname sent
           = Inr (TextContent text # others)"
  shows "messages c' ! (length (messages c) + i)
           = \<lparr>role = ''tool'',
              content = ''tool: '' @ function_name (message_tool_calls p ! i) @ [CHR 0x0A]
                @ ''args: '' @ py_str sent @ [CHR 0x0A] @ ''return: '' @ text\<rparr>
    \<and> sent = with_token (user_token c) (function_arguments (message_tool_calls p ! i))
    \<and> cr_content (evs ! (length (message_tool_calls p) + i))
        = ''tool: '' @ function_name (message_tool_calls p ! i) @ [CHR 0x0A]
            @ ''args: '' @ py_str sent @ [CHR 0x0A] @ ''return: '' @ text"
proof -
  let ?calls = "message_tool_calls p"
  from tool_call_sent[OF assms(3)] obtain S where
    l1: "call_log c1 = call_log c @ S" and lenS: "length S = length ?calls"
    and args: "\<forall>i<length S. snd (snd (S ! i))
              = with_token (user_token c) (function_arguments (?calls ! i))"
    and nth: "\<forall>i<length ?calls. msgs ! i
                   = result_message (?calls ! i) (snd (snd (S ! i)))
                       (call_tool e (call_log c @ take i S) (fst (S ! i))
                          (fst (snd (S ! i))) (snd (snd (S ! i))))"
    by blast
  have lenM: "length msgs = length ?calls" by (rule tool_call_length[OF assms(3)])
  from tool_call_frame[OF assms(3)] have m1: "messages c1 = messages c" by simp
  obtain evs0 c0 r0 where s: "consume e chain (c1\<lparr>messages := messages c1 @ map tool_entry msgs\<rparr>) (cnt + 1) ps = (evs0, c0, r0)"
    by (metis prod_cases3)
  from assms(1,2,3,4) s have c': "c' = c0"
    and evs: "evs = map (status_event chain) ?calls @ map (result_event chain) msgs @ evs0"
    by simp_all
  from consume_extends[OF s] obtain ms log where
    "messages c0 = (messages c1 @ map tool_entry msgs) @ ms"
    and "call_log c0 = call_log c1 @ log" by auto
  with c' m1 l1 have M: "messages c' = messages c @ map tool_entry msgs @ ms"
    and L: "call_log c' = call_log c @ S @ log" by simp_all
  have iS: "i < length S" using assms(5) lenS by simp
  have Si: "S ! i = (chan, tname, sent)"
    using assms(6) iS by (simp add: L nth_append)
  have tk: "take (length (call_log c) + i) (call_log c') = call_log c @ take i S"
    using iS by (simp add: L)
  have msg: "msgs ! i = success_message (?calls ! i) sent text"
    using nth assms(5,7) Si tk by (simp add: result_message_def)
  have hist: "messages c' ! (length (messages c) + i) = tool_entry (msgs ! i)"
    using assms(5) lenM by (simp add: M nth_append)
  have ev: "evs ! (length ?calls + i) = result_event chain (msgs ! i)"
    using assms(5) lenM by (simp add: evs nth_append)
  have sent: "sent = with_token (user_token c) (function_arguments (?calls ! i))"
    using args iS Si by auto
  show ?thesis
    using hist ev sent msg
    by (simp add: tool_entry_def result_event_def success_message_def)
qed

theorem tool_message_records_call_witness:
  "messages (fst (snd (consume (scenario_env (scripted [])) []
       (scenario_client\<lparr>user_token := Some ''T1''\<rparr>) 0
       [\<lparr>message_content = [], message_tool_calls = [nearby_call, topup_call]\<rparr>]))) ! 0
   = \<lparr>role = ''tool'',
      content = ''tool: '' @ ''places/nearby'' @ [CHR 0x0A] @ ''args: ''
        @ py_str [(''lat'', JFloat ''-6.19''), (''lon'', JFloat ''106.82''), (''token'', JStr ''T1'')]
        @ [CHR 0x0A] @ ''return: '' @ ''ok''\<rparr>"
proof -
  define e where "e = scenario_env (scripted [])"
  define c where "c = scenario_client\<lparr>user_token := Some ''T1''\<rparr>"
  define p where "p = \<lparr>message_content = [], message_tool_calls = [nearby_call, topup_call]\<rparr>"
  define sent where
    "sent = [(''lat'', JFloat ''-6.19''), (''lon'', JFloat ''106.82''), (''token'', JStr ''T1'')]"
  define msgs where "msgs = [success_message nearby_call sent ''ok'',
           success_message topup_call [(''amount'', JInt 50000)] ''ok'']"
  define c1 where "c1 = scenario_client\<lparr>user_token := Some ''T1'',
        call_log := [(sse_client ''places-url'', ''nearby'', sent),
                     (stdio_client ''wallet-cmd'', ''topup'', [(''amount'', JInt 50000)])]\<rparr>"
  have a1: "message_content p = []" and a2: "message_tool_calls p \<noteq> []"
    by (simp_all add: p_def)
  have a3: "tool_call e c (message_tool_calls p) [] = (Inr msgs, c1)"
    using scenario_batch by (simp add: e_def c_def p_def msgs_def c1_def sent_def)
  have a4: "consume e [] c 0 (p # []) = (fst (consume e [] c 0 [p]),
      fst (snd (consume e [] c 0 [p])), snd (snd (consume e [] c 0 [p])))"
    by simp
  have c': "fst (snd (consume e [] c 0 [p])) = c1\<lparr>messages := messages c1 @ map tool_entry msgs\<rparr>"
    using a1 a2 a3 by simp
  have a5: "0 < length (message_tool_calls p)" by (simp add: p_def)
  have a6: "call_log (fst (snd (consume e [] c 0 [p]))) ! (length (call_log c) + 0)
      = (sse_client ''places-url'', ''nearby'', sent)"
    unfolding c' by (simp add: c1_def c_def scenario_client_def)
  have a7: "call_tool e (take (length (call_log c) + 0) (call_log (fst (snd (consume e [] c 0 [p])))))
      (sse_client ''places-url'') ''nearby'' sent = Inr (TextContent ''ok'' # [])"
    unfolding c' by (simp add: e_def scenario_env_def)
  have m0: "length (messages c) + 0 = 0" by (simp add: c_def scenario_client_def)
  have nm: "function_name (message_tool_calls p ! 0) = ''places/nearby''"
    by (simp add: p_def nearby_call_def)
  note th = tool_message_records_call[OF a1 a2 a3 a4 a5 a6 a7, THEN conjunct1, unfolded m0 nm]
  show ?thesis
    using th unfolding e_def c_def p_def sent_def .
qed

lemma py_str_holds_item:
  assumes "(k, v) \<in> set tool_args"
  shows "py_in (repr_str k @ '': '' @ py_repr v) (py_str tool_args)"
proof -
  let ?item = "\<lambda>(k, v). repr_str k @ '': '' @ py_repr v"
  have "repr_str k @ '': '' @ py_repr v \<in> set (map ?item tool_args)"
    using assms by force
  from join_holds_element[OF this, of "'', ''"] obtain p q where
    j: "join '', '' (map ?item tool_args) = p @ (repr_str k @ '': '' @ py_repr v) @ q"
    by blast
  have "py_str tool_args = (''{'' @ p) @ (repr_str k @ '': '' @ py_repr v) @ (q @ ''}'')"
    using j by (simp add: py_str_def)
  then show ?thesis using py_in_iff by blast
qed

lemma py_in_I: "s = p @ sub @ q \<Longrightarrow> py_in sub s"
  using py_in_iff by blast

lemma success_message_holds_call:
  "py_in (function_name tool) (success_message tool sent text)
   \<and> py_in text (success_message tool sent text)
   \<and> ((k, v) \<in> set sent \<longrightarrow>
        py_in (repr_str k @ '': '' @ py_repr v) (success_message tool sent text))"
proof -
  have n: "py_in (function_name tool) (success_message tool sent text)"
    by (rule py_in_I[where p = "''tool: ''"
          and q = "[CHR 0x0A] @ ''args: '' @ py_str sent @ [CHR 0x0A] @ ''return: '' @ text"])
       (simp add: success_message_def)
  have t: "py_in text (success_message tool sent text)"
    by (rule py_in_I[where p = "''tool: '' @ function_name tool @ [CHR 0x0A] @ ''args: ''
            @ py_str sent @ [CHR 0x0A] @ ''return: ''" and q = "[]"])
       (simp add: success_message_def)
  have a: "py_in (repr_str k @ '': '' @ py_repr v) (success_message tool sent text)"
    if kv: "(k, v) \<in> set sent"
  proof -
    from py_str_holds_item[OF kv] obtain p q where
      "py_str sent = p @ (repr_str k @ '': '' @ py_repr v) @ q"
      using py_in_iff by blast
    then have "success_message tool sent text
        = (''tool: '' @ function_name tool @ [CHR 0x0A] @ ''args: '' @ p)
          @ (repr_str k @ '': '' @ py_repr v) @ (q @ [CHR 0x0A] @ ''return: '' @ text)"
      by (simp add: success_message_def)
    then show ?thesis by (rule py_in_I)
  qed
  from n t a show ?thesis by blast
qed

text \<open>
  The first tool entry of the batch of \<open>places/nearby\<close> and \<open>wallet/topup\<close>, written
  out character by character.
\<close>

lemma tool_message_text_example:
  "content (messages (fst (snd (consume (scenario_env (scripted [])) []
       (scenario_client\<lparr>user_token := Some ''T1''\<rparr>) 0
       [\<lparr>message_content = [], message_tool_calls = [nearby_call, topup_call]\<rparr>]))) ! 0)
   = ''tool: places/nearby'' @ [CHR 0x0A]
     @ ''args: {'' @ [CHR 0x27] @ ''lat'' @ [CHR 0x27] @ '': -6.19, ''
     @ [CHR 0x27] @ ''lon'' @ [CHR 0x27] @ '': 106.82, ''
     @ [CHR 0x27] @ ''token'' @ [CHR 0x27] @ '': '' @ [CHR 0x27] @ ''T1'' @ [CHR 0x27] @ ''}''
     @ [CHR 0x0A] @ ''return: ok''"
  unfolding tool_message_records_call_witness
  by (simp add: py_str_def repr_str_def repr_quote_def repr_char_def isprintable_def)

text \<open>
  C8 on the code. The model asks for \<open>places/nearby\<close> and \<open>bank/pay\<close> in one fragment.
  The call to \<open>places/nearby\<close> is sent with the injected token and the provider answers
  it with the text \<open>ok\<close>; the lookup of the provider \<open>bank\<close> then raises, and the run
  ends with the history holding the user entry alone: no tool entry records the answered
  call.
\<close>

theorem answered_call_leaves_no_tool_entry:
  "(case process_message (scenario_env (scripted [[nearby_call, bank_call]])) (Suc (Suc 0))
           ''cari'' ''qwen3:8b'' ''T1'' scenario_client of
      (evs, c', r) \<Rightarrow>
        (call_log c',
         call_tool (scenario_env (scripted [[nearby_call, bank_call]])) []
           (sse_client ''places-url'') ''nearby''
           [(''lat'', JFloat ''-6.19''), (''lon'', JFloat ''106.82''), (''token'', JStr ''T1'')],
         messages c', map cr_role evs, r))
   = ([(sse_client ''places-url'', ''nearby'',
        [(''lat'', JFloat ''-6.19''), (''lon'', JFloat ''106.82''), (''token'', JStr ''T1'')])],
      Inr [TextContent ''ok''],
      [\<lparr>role = ''user'', content = ''cari''\<rparr>],
      [''status'', ''status''],
      Raised (KeyError ''bank''))"
proof -
  have a: "with_token (Some ''T1'') (function_arguments nearby_call)
      = [(''lat'', JFloat ''-6.19''), (''lon'', JFloat ''106.82''), (''token'', JStr ''T1'')]"
    using nearby_has_token by (simp add: with_token_def) (simp add: nearby_call_def)
  have n: "function_name nearby_call = ''places/nearby''" by (simp add: nearby_call_def)
  have k: "function_name bank_call = ''bank/pay''" by (simp add: bank_call_def)
  show ?thesis
    by (simp add: process_message_def scenario_env_def scripted_def scenario_client_def
        get_tools_def tool_call_step_def a n k wallet_session_def places_session_def
        result_message_def status_event_def)
qed

end
